theory Spec2Isabelle
  imports Main
begin

section \<open>Errors\<close>

text \<open>
  Go errors as values. \<open>Wrapped msg e\<close> is \<^verbatim>\<open>fmt.Errorf("msg: %w", e)\<close>, \<open>Msg s\<close> is
  an error made from a string alone (\<^verbatim>\<open>errors.New\<close>, \<^verbatim>\<open>fmt.Errorf\<close> without \<^verbatim>\<open>%w\<close>).
  \<open>Canceled\<close> and \<open>DeadlineExceeded\<close> are the two values of \<^verbatim>\<open>ctx.Err()\<close>,
  \<open>ErrRecordNotFound\<close> is \<^verbatim>\<open>gorm.ErrRecordNotFound\<close>, \<open>ErrNotExist\<close> is an error for
  which \<^verbatim>\<open>os.IsNotExist\<close> holds, \<open>EOF\<close> is \<^verbatim>\<open>io.EOF\<close>, which \<^verbatim>\<open>json.Decoder.Decode\<close>
  returns on an empty file, \<open>DecodeError\<close> is what it returns on input it cannot parse,
  and \<open>IOError\<close> stands for any other failure of the operating system or of the database
  driver.
\<close>

datatype error =
    Canceled
  | DeadlineExceeded
  | ErrRecordNotFound
  | ErrNotExist
  | EOF
  | DecodeError
  | IOError
  | Msg string
  | Wrapped string error

text \<open>
  A call into the database or the operating system can fail for a reason of its own: its
  context was cancelled, its deadline passed, or the device failed. Such a failure is
  never \<open>ErrRecordNotFound\<close> or \<open>ErrNotExist\<close>, which report the state of the store.
\<close>

datatype fault = FaultCanceled | FaultDeadline | FaultIO

fun fault_error :: "fault \<Rightarrow> error" where
  "fault_error FaultCanceled = Canceled"
| "fault_error FaultDeadline = DeadlineExceeded"
| "fault_error FaultIO = IOError"

section \<open>Succession tracker on SQLite (package succession, GORM)\<close>

text \<open>
  The package \<^verbatim>\<open>succession\<close> as the orchestrator and the tests use it, from
  \<^verbatim>\<open>src/pkg/verifier/hugepages.go\<close> (third text of that file).
\<close>

subsection \<open>Data model\<close>

text \<open>
  \<^verbatim>\<open>HistoryEntry{ID uint `gorm:"primarykey"`; Owner string `gorm:"index;not null"`}\<close>.
  The primary key is a natural number: the code never computes with it, and a table of
  at most 26 rows does not reach the 64-bit bound.
\<close>

record HistoryEntry =
  ID :: nat
  Owner :: string

text \<open>
  The table behind \<^verbatim>\<open>*gorm.DB\<close>: its rows in insertion order, and \<open>seq\<close>, the largest
  key the table has handed out (SQLite keeps it for an auto-incremented integer primary
  key). Several markers, in several processes, open the same database, so the database
  is a state of its own, passed to every operation and returned by it.
\<close>

record database =
  rows :: "HistoryEntry list"
  seq :: nat

text \<open>
  \<^verbatim>\<open>Marker{db *gorm.DB; identity string; maxHistory int}\<close>; the handle \<open>db\<close> is the
  \<open>database\<close> argument of the operations. The fields are private and \<open>New\<close> is the only
  constructor.
\<close>

record Marker =
  identity :: string
  maxHistory :: int

text \<open>
  Every statement sent to the database can fail (I/O error, busy timeout, a context that
  has ended). \<open>faults\<close> says, for each kind of statement, whether it fails and with which
  error.
\<close>

datatype query =
  QOpen | QMigrate | QFirst | QCountOwner | QBegin | QCreate | QCount | QDelete | QCommit | QFind

type_synonym faults = "query \<Rightarrow> fault option"

definition no_faults :: faults where
  "no_faults = (\<lambda>q. None)"

definition empty_db :: database where
  "empty_db = \<lparr>rows = [], seq = 0\<rparr>"

text \<open>The primary-key constraint: no two rows share an \<open>ID\<close>.\<close>

definition wf_db :: "database \<Rightarrow> bool" where
  "wf_db db = distinct (map ID (rows db))"

subsection \<open>The statements GORM issues\<close>

text \<open>\<^verbatim>\<open>Order("id DESC")\<close>.\<close>

definition order_id_desc :: "HistoryEntry list \<Rightarrow> HistoryEntry list" where
  "order_id_desc rs = rev (sort_key ID rs)"

text \<open>\<^verbatim>\<open>Limit(n)\<close>; a negative limit is no limit.\<close>

definition sql_limit :: "int \<Rightarrow> 'a list \<Rightarrow> 'a list" where
  "sql_limit n xs = (if n < 0 then xs else take (nat n) xs)"

text \<open>\<^verbatim>\<open>gorm.G[HistoryEntry](db).Order("id DESC").First(ctx)\<close>.\<close>

definition db_First :: "faults \<Rightarrow> database \<Rightarrow> (HistoryEntry \<times> error option) \<times> database" where
  "db_First io db =
     (case io QFirst of
        Some f \<Rightarrow> ((\<lparr>ID = 0, Owner = []\<rparr>, Some (fault_error f)), db)
      | None \<Rightarrow>
         (case order_id_desc (rows db) of
            [] \<Rightarrow> ((\<lparr>ID = 0, Owner = []\<rparr>, Some ErrRecordNotFound), db)
          | r # _ \<Rightarrow> ((r, None), db)))"

text \<open>
  \<^verbatim>\<open>db.WithContext(ctx).Model(&HistoryEntry{}).Select("COUNT(*) > 0").Where("owner = ?", o).Find(&b)\<close>.
\<close>

definition db_CountOwner :: "faults \<Rightarrow> string \<Rightarrow> database \<Rightarrow> (bool \<times> error option) \<times> database" where
  "db_CountOwner io ownr db =
     (case io QCountOwner of
        Some f \<Rightarrow> ((False, Some (fault_error f)), db)
      | None \<Rightarrow> ((length (filter (\<lambda>r. Owner r = ownr) (rows db)) > 0, None), db))"

text \<open>The key of the next row: one more than every key in use or handed out before.\<close>

definition next_id :: "database \<Rightarrow> nat" where
  "next_id db = Suc (fold max (map ID (rows db)) (seq db))"

text \<open>\<^verbatim>\<open>gorm.G[HistoryEntry](tx).Create(ctx, &HistoryEntry{Owner: o})\<close>.\<close>

definition db_Create :: "faults \<Rightarrow> string \<Rightarrow> database \<Rightarrow> error option \<times> database" where
  "db_Create io ownr db =
     (case io QCreate of
        Some f \<Rightarrow> (Some (fault_error f), db)
      | None \<Rightarrow>
         (None, \<lparr>rows = rows db @ [\<lparr>ID = next_id db, Owner = ownr\<rparr>], seq = next_id db\<rparr>))"

text \<open>\<^verbatim>\<open>gorm.G[HistoryEntry](tx).Count(ctx, "id")\<close>.\<close>

definition db_Count :: "faults \<Rightarrow> database \<Rightarrow> (int \<times> error option) \<times> database" where
  "db_Count io db =
     (case io QCount of
        Some f \<Rightarrow> ((0, Some (fault_error f)), db)
      | None \<Rightarrow> ((int (length (rows db)), None), db))"

text \<open>
  \<^verbatim>\<open>subquery := tx.Model(&HistoryEntry{}).Select("id").Order("id DESC").Limit(n)\<close> and
  \<^verbatim>\<open>gorm.G[HistoryEntry](tx).Where("id NOT IN (?)", subquery).Delete(ctx)\<close>.
\<close>

definition newest_ids :: "int \<Rightarrow> database \<Rightarrow> nat list" where
  "newest_ids n db = sql_limit n (map ID (order_id_desc (rows db)))"

definition db_DeleteNotIn :: "faults \<Rightarrow> int \<Rightarrow> database \<Rightarrow> error option \<times> database" where
  "db_DeleteNotIn io n db =
     (case io QDelete of
        Some f \<Rightarrow> (Some (fault_error f), db)
      | None \<Rightarrow> (None, db\<lparr>rows := filter (\<lambda>r. ID r \<in> set (newest_ids n db)) (rows db)\<rparr>))"

text \<open>\<^verbatim>\<open>gorm.G[HistoryEntry](db).Order("id DESC").Find(ctx)\<close>.\<close>

definition db_Find :: "faults \<Rightarrow> database \<Rightarrow> (HistoryEntry list \<times> error option) \<times> database" where
  "db_Find io db =
     (case io QFind of
        Some f \<Rightarrow> (([], Some (fault_error f)), db)
      | None \<Rightarrow> ((order_id_desc (rows db), None), db))"

text \<open>
  \<^verbatim>\<open>db.Transaction(fn)\<close>: the changes of \<open>fn\<close> are committed when it returns nil and
  rolled back when it returns an error (or when the transaction cannot begin or commit).
\<close>

definition Transaction ::
  "faults \<Rightarrow> (database \<Rightarrow> error option \<times> database) \<Rightarrow> database \<Rightarrow> error option \<times> database" where
  "Transaction io fn db =
     (case io QBegin of
        Some f \<Rightarrow> (Some (fault_error f), db)
      | None \<Rightarrow>
         (case fn db of
            (Some e, _) \<Rightarrow> (Some e, db)
          | (None, tx) \<Rightarrow>
             (case io QCommit of
                Some f \<Rightarrow> (Some (fault_error f), db)
              | None \<Rightarrow> (None, tx))))"

subsection \<open>The operations of the marker\<close>

text \<open>
  \<^verbatim>\<open>New(path, identity)\<close>. The store is \<open>None\<close> when no database file exists at the path;
  opening creates it and \<^verbatim>\<open>AutoMigrate\<close> creates the empty table.
\<close>

definition New ::
  "faults \<Rightarrow> string \<Rightarrow> string \<Rightarrow> database option \<Rightarrow> error + (Marker \<times> database)" where
  "New io path ident store =
     (case io QOpen of
        Some f \<Rightarrow> Inl (Wrapped ''failed to open database'' (fault_error f))
      | None \<Rightarrow>
         (case io QMigrate of
            Some f \<Rightarrow> Inl (Wrapped ''failed to migrate schema'' (fault_error f))
          | None \<Rightarrow>
             Inr (\<lparr>identity = ident, maxHistory = 25\<rparr>,
                  (case store of None \<Rightarrow> empty_db | Some db \<Rightarrow> db))))"

definition CurrentOwner :: "faults \<Rightarrow> Marker \<Rightarrow> database \<Rightarrow> (string \<times> error option) \<times> database" where
  "CurrentOwner io m db =
     (case db_First io db of
        ((entry, Some e), db1) \<Rightarrow>
          (if e = ErrRecordNotFound then (([], None), db1)
           else (([], Some (Wrapped ''failed to get current owner'' e)), db1))
      | ((entry, None), db1) \<Rightarrow> ((Owner entry, None), db1))"

definition CheckSuccession ::
  "faults \<Rightarrow> Marker \<Rightarrow> database \<Rightarrow> (bool \<times> bool \<times> error option) \<times> database" where
  "CheckSuccession io m db =
     (case CurrentOwner io m db of
        ((currentOwner, Some e), db1) \<Rightarrow> ((False, False, Some e), db1)
      | ((currentOwner, None), db1) \<Rightarrow>
          (if currentOwner = [] \<or> currentOwner = identity m then ((True, False, None), db1)
           else
             (case db_CountOwner io (identity m) db1 of
                ((wasOwner, Some e), db2) \<Rightarrow>
                  ((False, False, Some (Wrapped ''failed to check history'' e)), db2)
              | ((wasOwner, None), db2) \<Rightarrow> ((\<not> wasOwner, wasOwner, None), db2))))"

definition Claim_tx :: "faults \<Rightarrow> Marker \<Rightarrow> database \<Rightarrow> error option \<times> database" where
  "Claim_tx io m tx =
     (case db_Create io (identity m) tx of
        (Some e, tx1) \<Rightarrow> (Some (Wrapped ''failed to insert new entry'' e), tx1)
      | (None, tx1) \<Rightarrow>
         (case db_Count io tx1 of
            ((count, Some e), tx2) \<Rightarrow> (Some (Wrapped ''failed to count entries'' e), tx2)
          | ((count, None), tx2) \<Rightarrow>
             (if count > maxHistory m then
                (case db_DeleteNotIn io (maxHistory m) tx2 of
                   (Some e, tx3) \<Rightarrow> (Some (Wrapped ''failed to trim old entries'' e), tx3)
                 | (None, tx3) \<Rightarrow> (None, tx3))
              else (None, tx2))))"

definition Claim :: "faults \<Rightarrow> Marker \<Rightarrow> database \<Rightarrow> error option \<times> database" where
  "Claim io m db = Transaction io (Claim_tx io m) db"

definition GetHistory ::
  "faults \<Rightarrow> Marker \<Rightarrow> database \<Rightarrow> (HistoryEntry list \<times> error option) \<times> database" where
  "GetHistory io m db = db_Find io db"

section \<open>Succession tracker on a locked JSON file (package succession, flock and renameio)\<close>

text \<open>
  The package \<^verbatim>\<open>succession\<close> of \<^verbatim>\<open>src/unnamed/part_003\<close>. Its names clash with those
  of the SQLite tracker and carry the suffix \<open>_file\<close> here.
\<close>

subsection \<open>Data model\<close>

text \<open>
  \<^verbatim>\<open>HistoryEntry{Owner string; Timestamp time.Time}\<close>, an instant being an integer with
  the zero time at 0, and \<^verbatim>\<open>HistoryData{Current HistoryEntry; History []HistoryEntry; Version int}\<close>.
  \<open>Version\<close> is a 64-bit \<^verbatim>\<open>int\<close>: an integer here, with the wrap-around of \<^verbatim>\<open>Version++\<close>
  written out in \<open>int_inc\<close>.
\<close>

record HistoryEntry_file =
  Owner_file :: string
  Timestamp :: int

record HistoryData =
  Current :: HistoryEntry_file
  History :: "HistoryEntry_file list"
  Version :: int

text \<open>\<^verbatim>\<open>Marker{path; identity; maxHistory int; lockTimeout time.Duration; mu sync.Mutex}\<close>.\<close>

record Marker_file =
  path :: string
  identity_file :: string
  maxHistory_file :: int
  lockTimeout :: int

type_synonym Option = "Marker_file \<Rightarrow> Marker_file"

definition WithMaxHistory :: "int \<Rightarrow> Option" where
  "WithMaxHistory n = (\<lambda>m. m\<lparr>maxHistory_file := n\<rparr>)"

definition WithLockTimeout :: "int \<Rightarrow> Option" where
  "WithLockTimeout d = (\<lambda>m. m\<lparr>lockTimeout := d\<rparr>)"

text \<open>\<^verbatim>\<open>New(path, identity, opts...)\<close>; five seconds are 5000000000 nanoseconds.\<close>

definition New_file :: "string \<Rightarrow> string \<Rightarrow> Option list \<Rightarrow> Marker_file" where
  "New_file p ident opts =
     fold (\<lambda>opt m. opt m) opts
       \<lparr>path = p, identity_file = ident, maxHistory_file = 100, lockTimeout = 5000000000\<rparr>"

text \<open>
  What is stored at a path: nothing, a file of size zero, bytes that do not parse as JSON
  of the expected shape, or the encoding of a \<open>HistoryData\<close> (encoding and decoding are
  taken to be inverse to each other).
\<close>

datatype file_state = NotExist | EmptyFile | Unparseable | Json HistoryData

type_synonym filesystem = "string \<Rightarrow> file_state"

definition no_files :: filesystem where
  "no_files = (\<lambda>p. NotExist)"

text \<open>
  The outcomes of the system calls of one operation: \<open>try_lock\<close> is what
  \<^verbatim>\<open>TryLockContext\<close> or \<^verbatim>\<open>TryRLockContext\<close> returns, the faults are failures of
  \<^verbatim>\<open>os.Open\<close>/\<^verbatim>\<open>os.OpenFile\<close> (other than the absence of the file), \<^verbatim>\<open>file.Stat\<close>,
  \<^verbatim>\<open>renameio.TempFile\<close>, \<^verbatim>\<open>Encode\<close> and \<^verbatim>\<open>CloseAtomicallyReplace\<close>, and \<open>now\<close> is
  \<^verbatim>\<open>time.Now()\<close>.

  The lock is taken on the history file itself (\<^verbatim>\<open>flock.New(m.path)\<close>), and the lock
  library opens the file it locks with \<^verbatim>\<open>O_CREATE\<close> before it tries to lock it: an absent
  file is created, empty, by taking the lock. \<open>lock_opens\<close> says whether the library got as
  far as opening the file when the lock was not taken; when the lock was taken, it did.
\<close>

record sys =
  try_lock :: "bool \<times> fault option"
  lock_opens :: bool
  open_fault :: "fault option"
  stat_fault :: "fault option"
  tempfile_fault :: "fault option"
  encode_fault :: "fault option"
  replace_fault :: "fault option"
  now :: int

definition sys_ok :: "int \<Rightarrow> sys" where
  "sys_ok t = \<lparr>try_lock = (True, None), lock_opens = True, open_fault = None, stat_fault = None,
                tempfile_fault = None, encode_fault = None, replace_fault = None, now = t\<rparr>"

text \<open>The file system after \<^verbatim>\<open>TryLockContext\<close> or \<^verbatim>\<open>TryRLockContext\<close> on the path \<open>p\<close>.\<close>

definition lock_file :: "sys \<Rightarrow> string \<Rightarrow> filesystem \<Rightarrow> filesystem" where
  "lock_file sy p fs =
     (if (try_lock sy = (True, None) \<or> lock_opens sy) \<and> fs p = NotExist
      then fs(p := EmptyFile) else fs)"

text \<open>\<^verbatim>\<open>Version++\<close> on a 64-bit \<^verbatim>\<open>int\<close>.\<close>

definition int_inc :: "int \<Rightarrow> int" where
  "int_inc n = (if n = 2 ^ 63 - 1 then - (2 ^ 63) else n + 1)"

text \<open>\<^verbatim>\<open>os.IsNotExist(err)\<close>: it does not look inside a wrapped error.\<close>

definition IsNotExist :: "error \<Rightarrow> bool" where
  "IsNotExist e = (e = ErrNotExist)"

text \<open>\<^verbatim>\<open>HistoryData{History: make([]HistoryEntry, 0)}\<close>.\<close>

definition fresh_data :: HistoryData where
  "fresh_data = \<lparr>Current = \<lparr>Owner_file = [], Timestamp = 0\<rparr>, History = [], Version = 0\<rparr>"

subsection \<open>The helpers of package lo\<close>

text \<open>
  \<^verbatim>\<open>lo.FindIndexOf(xs, p)\<close> returns the first element that satisfies \<open>p\<close>, its index and
  true, or a zero value, -1 and false; the caller keeps the index.
\<close>

fun find_index_from :: "('a \<Rightarrow> bool) \<Rightarrow> 'a list \<Rightarrow> int \<Rightarrow> int" where
  "find_index_from p [] i = - 1"
| "find_index_from p (x # xs) i = (if p x then i else find_index_from p xs (i + 1))"

definition FindIndexOf :: "'a list \<Rightarrow> ('a \<Rightarrow> bool) \<Rightarrow> int" where
  "FindIndexOf xs p = find_index_from p xs 0"

text \<open>\<^verbatim>\<open>lo.Filter(xs, p)\<close>.\<close>

definition Filter :: "'a list \<Rightarrow> ('a \<Rightarrow> bool) \<Rightarrow> 'a list" where
  "Filter xs p = filter p xs"

text \<open>
  \<^verbatim>\<open>lo.Slice(xs, start, end)\<close>: empty when \<open>start \<ge> end\<close>, otherwise both bounds are
  clamped to \<open>[0, len(xs)]\<close> and \<^verbatim>\<open>xs[start:end]\<close> is returned.
\<close>

definition Slice :: "'a list \<Rightarrow> int \<Rightarrow> int \<Rightarrow> 'a list" where
  "Slice xs start fin =
     (if start \<ge> fin then []
      else
        (let size = int (length xs);
             start1 = (if start > size then size else start);
             start2 = (if start1 < 0 then 0 else start1);
             fin1 = (if fin > size then size else fin);
             fin2 = (if fin1 < 0 then 0 else fin1)
         in drop (nat start2) (take (nat fin2) xs)))"

subsection \<open>The operations of the marker\<close>

text \<open>
  \<^verbatim>\<open>readWithLock\<close>: shared lock (on the file system \<open>fs0\<close> that taking the lock leaves),
  \<^verbatim>\<open>os.Open\<close>, \<^verbatim>\<open>Decode\<close>.
\<close>

definition readWithLock ::
  "sys \<Rightarrow> Marker_file \<Rightarrow> filesystem \<Rightarrow> (error + HistoryData) \<times> filesystem" where
  "readWithLock sy m fs =
     (let fs0 = lock_file sy (path m) fs
      in case try_lock sy of
           (locked, Some f) \<Rightarrow> (Inl (Wrapped ''failed to acquire read lock'' (fault_error f)), fs0)
         | (False, None) \<Rightarrow> (Inl (Msg ''timeout acquiring read lock''), fs0)
         | (True, None) \<Rightarrow>
            (case fs0 (path m) of
               NotExist \<Rightarrow> (Inl ErrNotExist, fs0)
             | content \<Rightarrow>
                (case open_fault sy of
                   Some f \<Rightarrow> (Inl (fault_error f), fs0)
                 | None \<Rightarrow>
                    (case content of
                       Json data \<Rightarrow> (Inr data, fs0)
                     | EmptyFile \<Rightarrow> (Inl (Wrapped ''failed to parse history'' EOF), fs0)
                     | _ \<Rightarrow> (Inl (Wrapped ''failed to parse history'' DecodeError), fs0)))))"

definition CheckSuccession_file ::
  "sys \<Rightarrow> Marker_file \<Rightarrow> filesystem \<Rightarrow> (bool \<times> bool \<times> error option) \<times> filesystem" where
  "CheckSuccession_file sy m fs =
     (case readWithLock sy m fs of
        (Inl e, fs1) \<Rightarrow>
          (if IsNotExist e then ((True, False, None), fs1) else ((False, False, Some e), fs1))
      | (Inr data, fs1) \<Rightarrow>
          (let position = FindIndexOf (History data) (\<lambda>entry. Owner_file entry = identity_file m)
           in if position = - 1 then ((True, False, None), fs1)
              else if position = 0 then ((True, False, None), fs1)
              else ((False, True, None), fs1)))"

text \<open>
  \<^verbatim>\<open>Claim\<close>: exclusive lock (on the file system \<open>fs0\<close> that taking the lock leaves),
  \<^verbatim>\<open>os.OpenFile(path, O_RDWR|O_CREATE)\<close> (which leaves an empty file where there was
  none), load or start fresh, update, write to a temporary file and replace.
\<close>

definition load_data :: "sys \<Rightarrow> file_state \<Rightarrow> HistoryData" where
  "load_data sy f =
     (if stat_fault sy = None \<and> f \<noteq> EmptyFile \<and> f \<noteq> NotExist then
        (case f of Json data \<Rightarrow> data | _ \<Rightarrow> fresh_data)
      else fresh_data)"

definition claim_update :: "Marker_file \<Rightarrow> int \<Rightarrow> HistoryData \<Rightarrow> HistoryData" where
  "claim_update m t data =
     (let newEntry = \<lparr>Owner_file = identity_file m, Timestamp = t\<rparr>;
          data1 =
            (if length (History data) > 0 \<and> Owner_file (History data ! 0) = identity_file m then
               data\<lparr>History := (History data)[0 := (History data ! 0)\<lparr>Timestamp := Timestamp newEntry\<rparr>],
                    Current := newEntry\<rparr>
             else
               (let data2 = data\<lparr>Current := newEntry\<rparr>;
                    filteredHistory =
                      Filter (History data2) (\<lambda>entry. Owner_file entry \<noteq> identity_file m)
                in data2\<lparr>History := Slice ([newEntry] @ filteredHistory) 0 (maxHistory_file m)\<rparr>))
      in data1\<lparr>Version := int_inc (Version data1)\<rparr>)"

definition Claim_file :: "sys \<Rightarrow> Marker_file \<Rightarrow> filesystem \<Rightarrow> error option \<times> filesystem" where
  "Claim_file sy m fs =
     (let fs0 = lock_file sy (path m) fs
      in case try_lock sy of
           (locked, Some f) \<Rightarrow> (Some (Wrapped ''failed to acquire write lock'' (fault_error f)), fs0)
         | (False, None) \<Rightarrow> (Some (Msg ''timeout acquiring write lock''), fs0)
         | (True, None) \<Rightarrow>
            (case open_fault sy of
               Some f \<Rightarrow> (Some (Wrapped ''failed to open history file'' (fault_error f)), fs0)
             | None \<Rightarrow>
                (let fs1 = (if fs0 (path m) = NotExist then fs0(path m := EmptyFile) else fs0);
                     data = claim_update m (now sy) (load_data sy (fs1 (path m)))
                 in case tempfile_fault sy of
                      Some f \<Rightarrow> (Some (Wrapped ''failed to create temp file'' (fault_error f)), fs1)
                    | None \<Rightarrow>
                       (case encode_fault sy of
                          Some f \<Rightarrow> (Some (Wrapped ''failed to write history'' (fault_error f)), fs1)
                        | None \<Rightarrow>
                           (case replace_fault sy of
                              Some f \<Rightarrow>
                                (Some (Wrapped ''failed to update history file'' (fault_error f)), fs1)
                            | None \<Rightarrow> (None, fs1(path m := Json data)))))))"

definition CurrentOwner_file ::
  "sys \<Rightarrow> Marker_file \<Rightarrow> filesystem \<Rightarrow> (string \<times> error option) \<times> filesystem" where
  "CurrentOwner_file sy m fs =
     (case readWithLock sy m fs of
        (Inl e, fs1) \<Rightarrow> (if IsNotExist e then (([], None), fs1) else (([], Some e), fs1))
      | (Inr data, fs1) \<Rightarrow> ((Owner_file (Current data), None), fs1))"

definition GetHistory_file ::
  "sys \<Rightarrow> Marker_file \<Rightarrow> filesystem \<Rightarrow> (HistoryEntry_file list \<times> error option) \<times> filesystem" where
  "GetHistory_file sy m fs =
     (case readWithLock sy m fs of
        (Inl e, fs1) \<Rightarrow> (if IsNotExist e then (([], None), fs1) else (([], Some e), fs1))
      | (Inr data, fs1) \<Rightarrow> ((History data, None), fs1))"

section \<open>Verifiers (package verifier)\<close>

text \<open>
  \<^verbatim>\<open>Run\<close> from \<^verbatim>\<open>src/pkg/verifier/verifier.go\<close>, the hugepages verifier from
  \<^verbatim>\<open>src/pkg/verifier/hugepages.go\<close> and the file removal verifier from
  \<^verbatim>\<open>src/unnamed/part_001\<close>.
\<close>

subsection \<open>The runner\<close>

text \<open>
  A context is what \<^verbatim>\<open>ctx.Err()\<close> returns: \<open>None\<close> while it is live, the reason once it
  has ended. \<^verbatim>\<open>interface Verifier {String() string; Verify(ctx) error}\<close>: a verifier
  blocks until it returns, so its result is a function of the state in which its context
  is when it returns.
\<close>

type_synonym ctx = "error option"

record Verifier =
  String :: string
  Verify :: "ctx \<Rightarrow> error option"

text \<open>The function handed to \<^verbatim>\<open>g.Go\<close> for the verifier \<open>v\<close>.\<close>

definition verifier_task :: "Verifier \<Rightarrow> ctx \<Rightarrow> error option" where
  "verifier_task v c =
     (case Verify v c of
        Some err \<Rightarrow> Some (Wrapped (String v) err)
      | None \<Rightarrow> None)"

text \<open>The context of \<^verbatim>\<open>errgroup.WithContext\<close> after its cancel function has run.\<close>

definition cancel :: "ctx \<Rightarrow> ctx" where
  "cancel c = (case c of None \<Rightarrow> Some Canceled | Some e \<Rightarrow> Some e)"

text \<open>
  \<^verbatim>\<open>errgroup.Group\<close>: the goroutines return in some order, given as the list of their
  indices; the group keeps the first error that is not nil and cancels the shared context
  when it gets it; \<^verbatim>\<open>g.Wait()\<close> returns that error once all have returned.
\<close>

fun group_wait :: "Verifier list \<Rightarrow> nat list \<Rightarrow> ctx \<Rightarrow> error option \<Rightarrow> error option" where
  "group_wait vs [] c err = err"
| "group_wait vs (i # order) c err =
     (case verifier_task (vs ! i) c of
        None \<Rightarrow> group_wait vs order c err
      | Some e \<Rightarrow>
         (case err of
            None \<Rightarrow> group_wait vs order (cancel c) (Some e)
          | Some first \<Rightarrow> group_wait vs order c err))"

text \<open>The orders in which \<open>n\<close> goroutines can return.\<close>

definition completion_order :: "nat \<Rightarrow> nat list \<Rightarrow> bool" where
  "completion_order n order = (distinct order \<and> set order = {0..<n})"

text \<open>\<^verbatim>\<open>Run(ctx, verifiers...)\<close>, for the order in which the verifiers return.\<close>

definition Run :: "nat list \<Rightarrow> ctx \<Rightarrow> Verifier list \<Rightarrow> error option" where
  "Run order c verifiers =
     (case group_wait verifiers order c None of
        Some err \<Rightarrow> Some (Wrapped ''verification failed'' err)
      | None \<Rightarrow> None)"

subsection \<open>The hugepages verifier\<close>

text \<open>
  \<^verbatim>\<open>HugePagesVerifier{fs *procfs.FS}\<close>, the file system being named by its mount point,
  and the two fields of \<^verbatim>\<open>procfs.Meminfo\<close> that are read (both \<^verbatim>\<open>*uint64\<close>).
\<close>

record HugePagesVerifier =
  hp_fs :: "string option"

record Meminfo =
  HugePagesTotal :: "nat option"
  HugePagesFree :: "nat option"

definition String_hugepages :: "HugePagesVerifier \<Rightarrow> string" where
  "String_hugepages v = ''hugepages''"

text \<open>
  What one \<^verbatim>\<open>select\<close> of the loop receives: a tick, with what \<^verbatim>\<open>v.fs.Meminfo()\<close> then
  returns, or the end of the context, with \<^verbatim>\<open>ctx.Err()\<close>.
\<close>

datatype hp_select = TickerC "error + Meminfo" | HpDone error

text \<open>
  The loop over what its \<^verbatim>\<open>select\<close> statements receive, in order; the result is \<open>None\<close>
  when the loop has not returned after all of them.
\<close>

fun hugepages_loop :: "hp_select list \<Rightarrow> error option option" where
  "hugepages_loop [] = None"
| "hugepages_loop (TickerC (Inl err) # rest) = Some None"
| "hugepages_loop (TickerC (Inr memInfo) # rest) =
     (if (case HugePagesFree memInfo of Some n \<Rightarrow> n > 0 | None \<Rightarrow> False) then Some None
      else if (case HugePagesTotal memInfo of Some n \<Rightarrow> n = 0 | None \<Rightarrow> False) then Some None
      else hugepages_loop rest)"
| "hugepages_loop (HpDone err # rest) =
     (if err = DeadlineExceeded then Some None else Some (Some err))"

text \<open>
  \<^verbatim>\<open>Verify\<close>; \<open>default_fs\<close> is the error of \<^verbatim>\<open>procfs.NewDefaultFS()\<close>, called when the
  verifier has no file system.
\<close>

definition Verify_hugepages ::
  "error option \<Rightarrow> HugePagesVerifier \<Rightarrow> hp_select list \<Rightarrow> error option option" where
  "Verify_hugepages default_fs v received =
     (if hp_fs v = None \<and> default_fs \<noteq> None then Some None
      else hugepages_loop received)"

subsection \<open>The file removal verifier\<close>

record FileRemovalVerifier =
  pattern :: string

definition String_file_removal :: "FileRemovalVerifier \<Rightarrow> string" where
  "String_file_removal v = ''file_removal('' @ pattern v @ '')''"

text \<open>\<^verbatim>\<open>fsnotify.Event{Name string; Op Op}\<close>, \<open>Op\<close> being a set of bits.\<close>

datatype Op = Create | Write | Remove | Rename | Chmod

record Event =
  Name :: string
  Op :: "Op set"

text \<open>
  The library functions the verifier calls: \<^verbatim>\<open>filepath.Match\<close> (the verifier drops its
  error, and the match is then false), \<^verbatim>\<open>filepath.Dir\<close>, and the failures of
  \<^verbatim>\<open>filepath.Glob\<close>, \<^verbatim>\<open>fsnotify.NewWatcher\<close> and \<^verbatim>\<open>watcher.Add\<close>. The pattern is taken
  to be a clean path, as the ones the orchestrator builds: \<^verbatim>\<open>filepath.Glob\<close> then finds the
  paths that \<open>Match\<close> accepts, and the watcher names a path in its events as \<open>Glob\<close>
  does. (For a pattern with a doubled slash \<open>Glob\<close> finds paths whose event names
  \<open>Match\<close> rejects.)
\<close>

record fr_env =
  Match :: "string \<Rightarrow> string \<Rightarrow> bool"
  Dir :: "string \<Rightarrow> string"
  glob_fault :: "error option"
  watcher_fault :: "error option"
  add_fault :: "error option"

text \<open>
  \<^verbatim>\<open>Verify\<close> runs beside the processes that change the directory, so it is a machine
  that moves between its blocking calls. \<open>AtGlob\<close>: before \<^verbatim>\<open>filepath.Glob\<close>;
  \<open>AtWatch\<close>: files were found, before \<^verbatim>\<open>fsnotify.NewWatcher\<close> and \<^verbatim>\<open>watcher.Add\<close>;
  \<open>AtSelect\<close>: in the loop, at \<^verbatim>\<open>select\<close>; \<open>Returned\<close>: finished, with its result.
\<close>

datatype fr_pc = AtGlob | AtWatch | AtSelect | Returned "error option"

text \<open>
  The state: where the verifier is, the paths that exist, the events the watcher holds
  for \<^verbatim>\<open>watcher.Events\<close>, and the context.
\<close>

record fr_state =
  pc :: fr_pc
  files :: "string list"
  pending :: "Event list"
  ctx_err :: ctx

text \<open>
  One move of an execution. Of the environment: another process removes or creates a path,
  or the context ends (deadline or cancellation). Of the verifier: \<open>Step\<close> runs it from
  \<open>AtGlob\<close> or \<open>AtWatch\<close> to its next point; at \<open>AtSelect\<close> the move names the case that
  \<^verbatim>\<open>select\<close> takes: an event, the closed event channel, the error channel (an error, or
  \<open>None\<close> when closed), or \<^verbatim>\<open>ctx.Done()\<close>.
\<close>

datatype move =
    Removes string
  | Creates string
  | CtxEnds error
  | Step
  | SelectEvent
  | SelectEventsClosed
  | SelectErrors "error option"
  | SelectDone

text \<open>
  A watch reports the changes made after it was added: a removal is queued as an event
  only when the verifier is at \<open>AtSelect\<close>.
\<close>

fun fr_step :: "fr_env \<Rightarrow> FileRemovalVerifier \<Rightarrow> fr_state \<Rightarrow> move \<Rightarrow> fr_state" where
  "fr_step env v s (Removes p) =
     (if p \<in> set (files s) then
        s\<lparr>files := removeAll p (files s),
          pending := (if pc s = AtSelect then pending s @ [\<lparr>Name = p, Op = {Remove}\<rparr>]
                      else pending s)\<rparr>
      else s)"
| "fr_step env v s (Creates p) =
     (if p \<in> set (files s) then s
      else
        s\<lparr>files := files s @ [p],
          pending := (if pc s = AtSelect then pending s @ [\<lparr>Name = p, Op = {Create}\<rparr>]
                      else pending s)\<rparr>)"
| "fr_step env v s (CtxEnds e) =
     (if ctx_err s = None then s\<lparr>ctx_err := Some e\<rparr> else s)"
| "fr_step env v s Step =
     (case pc s of
        AtGlob \<Rightarrow>
          (case glob_fault env of
             Some err \<Rightarrow>
               s\<lparr>pc := Returned (Some (Wrapped (''failed to check pattern '' @ pattern v) err))\<rparr>
           | None \<Rightarrow>
              (let matches = filter (Match env (pattern v)) (files s)
               in if length matches = 0 then s\<lparr>pc := Returned None\<rparr>
                  else s\<lparr>pc := AtWatch\<rparr>))
      | AtWatch \<Rightarrow>
          (case watcher_fault env of
             Some err \<Rightarrow> s\<lparr>pc := Returned (Some (Wrapped ''failed to create watcher'' err))\<rparr>
           | None \<Rightarrow>
              (case add_fault env of
                 Some err \<Rightarrow>
                   s\<lparr>pc := Returned
                           (Some (Wrapped (''failed to watch directory '' @ Dir env (pattern v)) err))\<rparr>
               | None \<Rightarrow> s\<lparr>pc := AtSelect\<rparr>))
      | _ \<Rightarrow> s)"
| "fr_step env v s SelectEvent =
     (if pc s = AtSelect then
        (case pending s of
           [] \<Rightarrow> s
         | event # queue \<Rightarrow>
            (if Remove \<in> Op event \<and> Match env (pattern v) (Name event)
             then s\<lparr>pc := Returned None, pending := queue\<rparr>
             else s\<lparr>pending := queue\<rparr>))
      else s)"
| "fr_step env v s SelectEventsClosed =
     (if pc s = AtSelect then s\<lparr>pc := Returned (Some (Msg ''watcher channel closed''))\<rparr> else s)"
| "fr_step env v s (SelectErrors None) =
     (if pc s = AtSelect then s\<lparr>pc := Returned (Some (Msg ''watcher error channel closed''))\<rparr>
      else s)"
| "fr_step env v s (SelectErrors (Some err)) =
     (if pc s = AtSelect then s\<lparr>pc := Returned (Some (Wrapped ''watcher error'' err))\<rparr> else s)"
| "fr_step env v s SelectDone =
     (if pc s = AtSelect then
        (case ctx_err s of
           None \<Rightarrow> s
         | Some err \<Rightarrow>
            s\<lparr>pc := Returned (Some (Wrapped (''timeout waiting for '' @ String_file_removal v) err))\<rparr>)
      else s)"

text \<open>
  \<^verbatim>\<open>Verify(ctx)\<close> called with the paths \<open>fs\<close> in existence and the context \<open>c\<close>, over the
  moves of an execution; the result is \<open>None\<close> when the verifier has not returned after
  them.
\<close>

definition fr_start :: "string list \<Rightarrow> ctx \<Rightarrow> fr_state" where
  "fr_start fs c = \<lparr>pc = AtGlob, files = fs, pending = [], ctx_err = c\<rparr>"

definition fr_result :: "fr_state \<Rightarrow> error option option" where
  "fr_result s = (case pc s of Returned r \<Rightarrow> Some r | _ \<Rightarrow> None)"

definition Verify_file_removal ::
  "fr_env \<Rightarrow> FileRemovalVerifier \<Rightarrow> string list \<Rightarrow> ctx \<Rightarrow> move list \<Rightarrow> error option option" where
  "Verify_file_removal env v fs c moves = fr_result (fold (\<lambda>mv s. fr_step env v s mv) moves (fr_start fs c))"

text \<open>
  Past \<^verbatim>\<open>filepath.Glob\<close>, with no matching path left and no matching removal queued, the
  verifier cannot return nil unless a matching path is created again.
\<close>

definition fr_missed :: "fr_env \<Rightarrow> FileRemovalVerifier \<Rightarrow> fr_state \<Rightarrow> bool" where
  "fr_missed env v s =
     (pc s \<noteq> AtGlob \<and> pc s \<noteq> Returned None \<and>
      filter (Match env (pattern v)) (files s) = [] \<and>
      filter (\<lambda>ev. Remove \<in> Op ev \<and> Match env (pattern v) (Name ev)) (pending s) = [])"

section \<open>Properties of the SQLite tracker\<close>

subsection \<open>Keys and ordering\<close>

lemma fold_max_ge_init: "(s::nat) \<le> fold max xs s"
  by (induction xs arbitrary: s) (auto intro: order_trans[OF max.cobounded2])

lemma fold_max_ge_elem: "x \<in> set xs \<Longrightarrow> (x::nat) \<le> fold max xs s"
proof (induction xs arbitrary: s)
  case Nil
  then show ?case by simp
next
  case (Cons y ys)
  show ?case
  proof (cases "x = y")
    case True
    have "y \<le> max y s" by simp
    also have "\<dots> \<le> fold max ys (max y s)" by (rule fold_max_ge_init)
    finally show ?thesis using True by simp
  next
    case False
    with Cons show ?thesis by simp
  qed
qed

lemma next_id_fresh: "r \<in> set (rows db) \<Longrightarrow> ID r < next_id db"
  unfolding next_id_def using fold_max_ge_elem[of "ID r" "map ID (rows db)" "seq db"] by auto


lemma insort_key_snoc_max:
  "f y < f x \<Longrightarrow> \<forall>z\<in>set zs. f z < f x \<Longrightarrow> insort_key f y (zs @ [x]) = insort_key f y zs @ [x]"
  for f :: "'a \<Rightarrow> nat"
  by (induction zs) auto

lemma sort_key_snoc_max:
  "\<forall>y\<in>set xs. f y < f x \<Longrightarrow> sort_key f (xs @ [x]) = sort_key f xs @ [x]"
  for f :: "'a \<Rightarrow> nat"
proof (induction xs)
  case Nil
  then show ?case by simp
next
  case (Cons a xs)
  then show ?case by (simp add: insort_key_snoc_max)
qed

lemma order_id_desc_snoc:
  "\<forall>r\<in>set rs. ID r < ID x \<Longrightarrow> order_id_desc (rs @ [x]) = x # order_id_desc rs"
  by (simp add: order_id_desc_def sort_key_snoc_max)

lemma filter_take_distinct:
  "distinct (map f ys) \<Longrightarrow> filter (\<lambda>r. f r \<in> set (map f (take n ys))) ys = take n ys"
proof (induction ys arbitrary: n)
  case Nil
  then show ?case by simp
next
  case (Cons y ys)
  show ?case
  proof (cases n)
    case 0
    then show ?thesis by simp
  next
    case (Suc k)
    from Cons.prems have d: "distinct (map f ys)" and ny: "f y \<notin> f ` set ys" by auto
    have "filter (\<lambda>r. f r \<in> set (map f (take (Suc k) (y # ys)))) ys
          = filter (\<lambda>r. f r \<in> set (map f (take k ys))) ys"
    proof (intro filter_cong refl)
      fix x assume "x \<in> set ys"
      then have "f x \<in> f ` set ys" by (rule imageI)
      with ny have "f x \<noteq> f y" by metis
      then show "(f x \<in> set (map f (take (Suc k) (y # ys)))) = (f x \<in> set (map f (take k ys)))"
        by auto
    qed
    with Cons.IH[OF d, of k] Suc show ?thesis by simp
  qed
qed

lemma order_id_desc_filter:
  "order_id_desc (filter P rs) = filter P (order_id_desc rs)"
  by (simp add: order_id_desc_def filter_sort[symmetric] rev_filter)

lemma set_order_id_desc: "set (order_id_desc rs) = set rs"
  by (simp add: order_id_desc_def)

lemma length_order_id_desc: "length (order_id_desc rs) = length rs"
  by (simp add: order_id_desc_def)

lemma distinct_map_order_id_desc:
  "distinct (map ID (order_id_desc rs)) = distinct (map ID rs)"
  by (simp add: order_id_desc_def distinct_map)

lemma count_owner_order:
  "length (filter P (order_id_desc rs)) = length (filter P rs)"
proof -
  have "filter P (order_id_desc rs) = order_id_desc (filter P rs)"
    by (simp add: order_id_desc_filter)
  then show ?thesis by (simp add: length_order_id_desc)
qed

subsection \<open>Claiming\<close>

lemma Claim_failure_unchanged: "fst (Claim io m db) \<noteq> None \<Longrightarrow> snd (Claim io m db) = db"
  by (auto simp: Claim_def Transaction_def split: prod.splits option.splits)

lemma Claim_success_rows:
  assumes "fst (Claim io m db) = None"
  shows "rows (snd (Claim io m db)) =
           (let new = \<lparr>ID = next_id db, Owner = identity m\<rparr>; rs = rows db @ [new]
            in if int (length rs) > maxHistory m
               then filter (\<lambda>r. ID r \<in> set (sql_limit (maxHistory m) (map ID (order_id_desc rs)))) rs
               else rs)"
    and "seq (snd (Claim io m db)) = next_id db"
  using assms
  by (auto simp: Claim_def Transaction_def Claim_tx_def db_Create_def db_Count_def
      db_DeleteNotIn_def newest_ids_def Let_def split: prod.splits option.splits if_splits)

lemma Claim_history:
  assumes wf: "wf_db db" and ok: "fst (Claim io m db) = None"
  shows "order_id_desc (rows (snd (Claim io m db))) =
           sql_limit (maxHistory m) (\<lparr>ID = next_id db, Owner = identity m\<rparr> # order_id_desc (rows db))"
proof -
  define new where "new = \<lparr>ID = next_id db, Owner = identity m\<rparr>"
  define rs where "rs = rows db @ [new]"
  define h where "h = new # order_id_desc (rows db)"
  have fresh: "\<forall>r\<in>set (rows db). ID r < ID new"
    by (simp add: new_def next_id_fresh)
  have h: "order_id_desc rs = h"
    unfolding rs_def h_def using fresh by (rule order_id_desc_snoc)
  have "distinct (map ID rs)"
    using wf fresh by (auto simp: wf_db_def rs_def)
  then have dh: "distinct (map ID h)"
    using distinct_map_order_id_desc[of rs] h by simp
  have len: "length h = length rs"
    using length_order_id_desc[of rs] h by simp
  show ?thesis
  proof (cases "int (length rs) > maxHistory m")
    case True
    have rows': "rows (snd (Claim io m db)) =
        filter (\<lambda>r. ID r \<in> set (sql_limit (maxHistory m) (map ID h))) rs"
      using Claim_success_rows(1)[OF ok] True h by (simp add: Let_def new_def rs_def)
    show ?thesis
    proof (cases "maxHistory m < 0")
      case True
      then have "rows (snd (Claim io m db)) = rs"
        using rows' set_order_id_desc[of rs] h by (simp add: sql_limit_def)
      then show ?thesis using True h by (simp add: sql_limit_def h_def new_def)
    next
      case False
      then have "rows (snd (Claim io m db)) =
          filter (\<lambda>r. ID r \<in> set (map ID (take (nat (maxHistory m)) h))) rs"
        using rows' by (simp add: sql_limit_def take_map)
      then have "order_id_desc (rows (snd (Claim io m db))) =
          filter (\<lambda>r. ID r \<in> set (map ID (take (nat (maxHistory m)) h))) h"
        using h by (simp add: order_id_desc_filter)
      also have "\<dots> = take (nat (maxHistory m)) h"
        using dh by (rule filter_take_distinct)
      finally show ?thesis using False by (simp add: sql_limit_def h_def new_def)
    qed
  next
    case False
    then have "rows (snd (Claim io m db)) = rs"
      using Claim_success_rows(1)[OF ok] by (simp add: Let_def new_def rs_def)
    moreover have "sql_limit (maxHistory m) h = h"
      using False len by (simp add: sql_limit_def)
    ultimately show ?thesis using h by (simp add: h_def new_def)
  qed
qed

lemma wf_db_Claim: "wf_db db \<Longrightarrow> wf_db (snd (Claim io m db))"
proof (cases "fst (Claim io m db) = None")
  case False
  assume "wf_db db"
  with False show ?thesis by (simp add: Claim_failure_unchanged)
next
  case True
  assume wf: "wf_db db"
  define rs where "rs = rows db @ [\<lparr>ID = next_id db, Owner = identity m\<rparr>]"
  have fresh: "\<forall>r\<in>set (rows db). ID r < next_id db" by (simp add: next_id_fresh)
  have d: "distinct (map ID rs)"
    using wf fresh by (auto simp: wf_db_def rs_def)
  have "\<exists>P. rows (snd (Claim io m db)) = filter P rs"
  proof (cases "int (length rs) > maxHistory m")
    case True
    then show ?thesis
      using Claim_success_rows(1)[OF \<open>fst (Claim io m db) = None\<close>]
      unfolding Let_def rs_def[symmetric] by (simp only: if_True) blast
  next
    case False
    then have "rows (snd (Claim io m db)) = filter (\<lambda>r. True) rs"
      using Claim_success_rows(1)[OF \<open>fst (Claim io m db) = None\<close>]
      unfolding Let_def rs_def[symmetric] by simp
    then show ?thesis by blast
  qed
  then obtain P where "rows (snd (Claim io m db)) = filter P rs" ..
  with d show ?thesis by (simp add: wf_db_def distinct_map_filter)
qed


lemma Claim_count_owner:
  assumes wf: "wf_db db" and ok: "fst (Claim io m db) = None"
    and room: "int (length (rows db)) < maxHistory m"
  shows "length (filter (\<lambda>r. Owner r = identity m) (rows (snd (Claim io m db))))
           = length (filter (\<lambda>r. Owner r = identity m) (rows db)) + 1"
proof -
  have "rows (snd (Claim io m db)) = rows db @ [\<lparr>ID = next_id db, Owner = identity m\<rparr>]"
    using Claim_success_rows(1)[OF ok] room by (simp add: Let_def)
  then show ?thesis by simp
qed

lemma Claim_bounded:
  assumes wf: "wf_db db" and ok: "fst (Claim io m db) = None" and pos: "0 < maxHistory m"
  shows "length (order_id_desc (rows (snd (Claim io m db)))) \<le> nat (maxHistory m)"
    and "order_id_desc (rows (snd (Claim io m db))) \<noteq> []"
    and "hd (order_id_desc (rows (snd (Claim io m db)))) = \<lparr>ID = next_id db, Owner = identity m\<rparr>"
proof -
  have h: "order_id_desc (rows (snd (Claim io m db))) =
      take (nat (maxHistory m)) (\<lparr>ID = next_id db, Owner = identity m\<rparr> # order_id_desc (rows db))"
    using Claim_history[OF wf ok] pos by (simp add: sql_limit_def)
  show "length (order_id_desc (rows (snd (Claim io m db)))) \<le> nat (maxHistory m)"
    unfolding h by simp
  from pos obtain k where k: "nat (maxHistory m) = Suc k" by (cases "nat (maxHistory m)") auto
  show "order_id_desc (rows (snd (Claim io m db))) \<noteq> []"
    unfolding h k by simp
  show "hd (order_id_desc (rows (snd (Claim io m db)))) = \<lparr>ID = next_id db, Owner = identity m\<rparr>"
    unfolding h k by simp
qed

lemma claims_fold:
  assumes wf: "wf_db db" and ms: "ms \<noteq> []" and cap: "\<forall>m\<in>set ms. 0 < maxHistory m"
  shows "wf_db (fold (\<lambda>m d. snd (Claim no_faults m d)) ms db)"
    and "length (order_id_desc (rows (fold (\<lambda>m d. snd (Claim no_faults m d)) ms db)))
           \<le> nat (maxHistory (last ms))"
    and "Owner (hd (order_id_desc (rows (fold (\<lambda>m d. snd (Claim no_faults m d)) ms db))))
           = identity (last ms)"
proof -
  have ok: "fst (Claim no_faults m d) = None" for m d
    by (simp add: Claim_def Transaction_def Claim_tx_def db_Create_def db_Count_def
        db_DeleteNotIn_def no_faults_def)
  have wfs: "wf_db d \<Longrightarrow> wf_db (fold (\<lambda>m d. snd (Claim no_faults m d)) xs d)" for xs d
    by (induction xs arbitrary: d) (simp_all add: wf_db_Claim)
  from ms obtain xs m where s: "ms = xs @ [m]" by (metis rev_exhaust)
  define d where "d = fold (\<lambda>m d. snd (Claim no_faults m d)) xs db"
  have wd: "wf_db d" unfolding d_def using wf by (rule wfs)
  have f: "fold (\<lambda>m d. snd (Claim no_faults m d)) ms db = snd (Claim no_faults m d)"
    by (simp add: s d_def)
  have pos: "0 < maxHistory m" using cap s by simp
  show "wf_db (fold (\<lambda>m d. snd (Claim no_faults m d)) ms db)" using wf by (rule wfs)
  show "length (order_id_desc (rows (fold (\<lambda>m d. snd (Claim no_faults m d)) ms db)))
           \<le> nat (maxHistory (last ms))"
    unfolding f using Claim_bounded(1)[OF wd ok pos] s by simp
  show "Owner (hd (order_id_desc (rows (fold (\<lambda>m d. snd (Claim no_faults m d)) ms db))))
           = identity (last ms)"
    unfolding f using Claim_bounded(3)[OF wd ok pos] s by simp
qed

subsection \<open>Reading\<close>

lemma fault_error_not_found: "fault_error f \<noteq> ErrRecordNotFound"
  by (cases f) simp_all

lemma fault_error_not_exist: "fault_error f \<noteq> ErrNotExist"
  by (cases f) simp_all

lemma CurrentOwner_ok:
  "io QFirst = None \<Longrightarrow>
   CurrentOwner io m db =
     ((case order_id_desc (rows db) of [] \<Rightarrow> [] | r # _ \<Rightarrow> Owner r, None), db)"
  by (simp add: CurrentOwner_def db_First_def split: list.splits)

lemma CurrentOwner_fault:
  "io QFirst = Some f \<Longrightarrow>
   CurrentOwner io m db = (([], Some (Wrapped ''failed to get current owner'' (fault_error f))), db)"
  by (simp add: CurrentOwner_def db_First_def fault_error_not_found)

lemma CheckSuccession_no_error:
  assumes "snd (snd (fst (CheckSuccession io m db))) = None"
  shows "io QFirst = None"
    and "fst (CheckSuccession io m db) =
          (case order_id_desc (rows db) of
             [] \<Rightarrow> (True, False, None)
           | r # _ \<Rightarrow>
               if Owner r = [] \<or> Owner r = identity m then (True, False, None)
               else (identity m \<notin> Owner ` set (rows db), identity m \<in> Owner ` set (rows db), None))"
proof -
  show q: "io QFirst = None"
  proof (cases "io QFirst")
    case (Some f)
    then show ?thesis using assms by (simp add: CheckSuccession_def CurrentOwner_fault)
  qed simp
  have mem: "(filter (\<lambda>r. Owner r = identity m) (rows db) = []) = (identity m \<notin> Owner ` set (rows db))"
  proof -
    have "(filter (\<lambda>r. Owner r = identity m) (rows db) = []) = (\<forall>r\<in>set (rows db). Owner r \<noteq> identity m)"
      by (simp add: filter_empty_conv)
    also have "\<dots> = (identity m \<notin> Owner ` set (rows db))"
      by (metis image_iff)
    finally show ?thesis .
  qed
  show "fst (CheckSuccession io m db) =
          (case order_id_desc (rows db) of
             [] \<Rightarrow> (True, False, None)
           | r # _ \<Rightarrow>
               if Owner r = [] \<or> Owner r = identity m then (True, False, None)
               else (identity m \<notin> Owner ` set (rows db), identity m \<in> Owner ` set (rows db), None))"
  proof (cases "order_id_desc (rows db)")
    case Nil
    then show ?thesis using q by (simp add: CheckSuccession_def CurrentOwner_ok)
  next
    case (Cons r rest)
    show ?thesis
    proof (cases "Owner r = [] \<or> Owner r = identity m")
      case True
      then show ?thesis using q Cons by (auto simp: CheckSuccession_def CurrentOwner_ok)
    next
      case False
      show ?thesis
      proof (cases "io QCountOwner")
        case None
        then show ?thesis
          using q Cons False mem by (simp add: CheckSuccession_def CurrentOwner_ok db_CountOwner_def)
      next
        case (Some f)
        then have "snd (snd (fst (CheckSuccession io m db))) \<noteq> None"
          using q Cons False by (simp add: CheckSuccession_def CurrentOwner_ok db_CountOwner_def)
        with assms show ?thesis by simp
      qed
    qed
  qed
qed




lemma GetHistory_ok:
  "io QFind = None \<Longrightarrow> GetHistory io m db = ((order_id_desc (rows db), None), db)"
  by (simp add: GetHistory_def db_Find_def)

lemma CheckSuccession_exclusive:
  "fst (CheckSuccession io m db) = (sp, ir, None) \<Longrightarrow> sp = (\<not> ir)"
  by (auto simp: CheckSuccession_def CurrentOwner_def db_First_def db_CountOwner_def
      split: option.splits list.splits prod.splits if_splits)

lemma New_ok:
  "New io p ident st = Inr (m, db) \<Longrightarrow>
     identity m = ident \<and> maxHistory m = 25 \<and> db = (case st of None \<Rightarrow> empty_db | Some d \<Rightarrow> d)"
  by (auto simp: New_def split: option.splits)

lemma superseded_sqlite:
  assumes A: "identity mA = A" "2 \<le> maxHistory mA"
    and B: "identity mB = B" "2 \<le> maxHistory mB"
    and e: "rows db0 = []"
    and c1: "Claim io1 mA db0 = (None, db1)"
    and c2: "Claim io2 mB db1 = (None, db2)"
    and ne: "B \<noteq> A" "B \<noteq> []"
    and ok: "snd (snd (fst (CheckSuccession io3 mA db2))) = None"
  shows "fst (CheckSuccession io3 mA db2) = (False, True, None)"
proof -
  have wf0: "wf_db db0" using e by (simp add: wf_db_def)
  have db1: "db1 = snd (Claim io1 mA db0)" and ok1: "fst (Claim io1 mA db0) = None"
    using c1 by simp_all
  have db2: "db2 = snd (Claim io2 mB db1)" and ok2: "fst (Claim io2 mB db1) = None"
    using c2 by simp_all
  have wf1: "wf_db db1" unfolding db1 using wf0 by (rule wf_db_Claim)
  have h1: "order_id_desc (rows db1) = [\<lparr>ID = next_id db0, Owner = A\<rparr>]"
    using Claim_history[OF wf0 ok1] A e unfolding db1
    by (simp add: sql_limit_def order_id_desc_def)
  have h2: "order_id_desc (rows db2) = [\<lparr>ID = next_id db1, Owner = B\<rparr>, \<lparr>ID = next_id db0, Owner = A\<rparr>]"
    using Claim_history[OF wf1 ok2] B h1 unfolding db2
    by (simp add: sql_limit_def numeral_2_eq_2 Suc_nat_eq_nat_zadd1 nat_le_iff take_Suc_conv_app_nth)
  have "set (order_id_desc (rows db2)) = set (rows db2)" by (rule set_order_id_desc)
  then have mem: "A \<in> Owner ` set (rows db2)" unfolding h2 by force
  show ?thesis
    using CheckSuccession_no_error(2)[OF ok] h2 A ne mem by simp
qed

section \<open>Properties of the file tracker\<close>

subsection \<open>The helpers of package lo\<close>

lemma find_index_from_ge: "find_index_from p xs i = - 1 \<or> i \<le> find_index_from p xs i"
proof (induction xs arbitrary: i)
  case Nil
  then show ?case by simp
next
  case (Cons x xs)
  show ?case using Cons.IH[of "i + 1"] by (cases "p x") auto
qed

lemma find_index_from_none:
  "0 \<le> i \<Longrightarrow> (find_index_from p xs i = - 1) = (\<forall>x\<in>set xs. \<not> p x)"
proof (induction xs arbitrary: i)
  case Nil
  then show ?case by simp
next
  case (Cons x xs)
  then show ?case using Cons.IH[of "i + 1"] by auto
qed

lemma find_index_from_first:
  "0 \<le> i \<Longrightarrow> (find_index_from p xs i = i) = (xs \<noteq> [] \<and> p (hd xs))"
proof (cases xs)
  case Nil
  assume "0 \<le> i"
  with Nil show ?thesis by simp
next
  case (Cons x rest)
  assume i: "0 \<le> i"
  have "find_index_from p rest (i + 1) \<noteq> i"
    using find_index_from_ge[of p rest "i + 1"] i by auto
  with Cons show ?thesis by simp
qed

lemma FindIndexOf_none: "(FindIndexOf xs p = - 1) = (\<forall>x\<in>set xs. \<not> p x)"
  by (simp add: FindIndexOf_def find_index_from_none)

lemma FindIndexOf_first: "(FindIndexOf xs p = 0) = (xs \<noteq> [] \<and> p (hd xs))"
  by (simp add: FindIndexOf_def find_index_from_first)

lemma Slice_from_0: "Slice xs 0 n = (if n \<le> 0 then [] else take (nat n) xs)"
  by (auto simp: Slice_def Let_def)

subsection \<open>Reading\<close>

lemma lock_file_exists: "fs p \<noteq> NotExist \<Longrightarrow> lock_file sy p fs = fs"
  by (simp add: lock_file_def)

lemma lock_file_locked:
  "try_lock sy = (True, None) \<Longrightarrow>
   lock_file sy p fs = (if fs p = NotExist then fs(p := EmptyFile) else fs)"
  by (simp add: lock_file_def)


lemma readWithLock_cases:
  "readWithLock sy m fs =
     (case try_lock sy of
        (locked, Some f) \<Rightarrow> Inl (Wrapped ''failed to acquire read lock'' (fault_error f))
      | (False, None) \<Rightarrow> Inl (Msg ''timeout acquiring read lock'')
      | (True, None) \<Rightarrow>
          (case open_fault sy of
             Some f \<Rightarrow> Inl (fault_error f)
           | None \<Rightarrow> (case fs (path m) of
                        Json data \<Rightarrow> Inr data
                      | Unparseable \<Rightarrow> Inl (Wrapped ''failed to parse history'' DecodeError)
                      | _ \<Rightarrow> Inl (Wrapped ''failed to parse history'' EOF))),
      lock_file sy (path m) fs)"
  by (auto simp: readWithLock_def Let_def lock_file_def
      split: prod.splits option.splits bool.splits file_state.splits)




lemma CheckSuccession_file_exclusive:
  "fst (CheckSuccession_file sy m fs) = (sp, ir, None) \<Longrightarrow> sp = (\<not> ir)"
  by (auto simp: CheckSuccession_file_def Let_def split: prod.splits sum.splits if_splits)

lemma read_absent:
  assumes "try_lock sy = (True, None)" "open_fault sy = None" "fs (path m) = NotExist"
  shows "CheckSuccession_file sy m fs
           = ((False, False, Some (Wrapped ''failed to parse history'' EOF)), fs(path m := EmptyFile))"
    and "CurrentOwner_file sy m fs
           = (([], Some (Wrapped ''failed to parse history'' EOF)), fs(path m := EmptyFile))"
    and "GetHistory_file sy m fs
           = (([], Some (Wrapped ''failed to parse history'' EOF)), fs(path m := EmptyFile))"
  using assms
  by (simp_all add: CheckSuccession_file_def CurrentOwner_file_def GetHistory_file_def
      readWithLock_cases IsNotExist_def lock_file_locked)

lemma CheckSuccession_file_json:
  "try_lock sy = (True, None) \<Longrightarrow> open_fault sy = None \<Longrightarrow> fs (path m) = Json d \<Longrightarrow>
   CheckSuccession_file sy m fs =
     ((if (\<forall>e\<in>set (History d). Owner_file e \<noteq> identity_file m) then (True, False, None)
       else if Owner_file (hd (History d)) = identity_file m then (True, False, None)
       else (False, True, None)), fs)"
  using FindIndexOf_none[of "History d" "\<lambda>entry. Owner_file entry = identity_file m"]
        FindIndexOf_first[of "History d" "\<lambda>entry. Owner_file entry = identity_file m"]
  by (auto simp: CheckSuccession_file_def readWithLock_cases Let_def lock_file_exists)

lemma CheckSuccession_file_unparseable:
  "try_lock sy = (True, None) \<Longrightarrow> open_fault sy = None \<Longrightarrow> fs (path m) = Unparseable \<Longrightarrow>
   CheckSuccession_file sy m fs =
     ((False, False, Some (Wrapped ''failed to parse history'' DecodeError)), fs)"
  by (auto simp: CheckSuccession_file_def readWithLock_cases IsNotExist_def lock_file_exists)

lemma read_unparseable:
  assumes "try_lock sy = (True, None)" "open_fault sy = None" "fs (path m) = Unparseable"
  shows "CurrentOwner_file sy m fs = (([], Some (Wrapped ''failed to parse history'' DecodeError)), fs)"
    and "GetHistory_file sy m fs = (([], Some (Wrapped ''failed to parse history'' DecodeError)), fs)"
  using assms
  by (simp_all add: CurrentOwner_file_def GetHistory_file_def readWithLock_cases IsNotExist_def
      lock_file_exists)

subsection \<open>Claiming\<close>

lemma load_data_cases:
  "load_data sy f = (case f of Json d \<Rightarrow> (if stat_fault sy = None then d else fresh_data) | _ \<Rightarrow> fresh_data)"
  by (simp add: load_data_def split: file_state.splits)

lemma Claim_file_fst:
  "fst (Claim_file sy m fs) =
     (case try_lock sy of
        (locked, Some f) \<Rightarrow> Some (Wrapped ''failed to acquire write lock'' (fault_error f))
      | (False, None) \<Rightarrow> Some (Msg ''timeout acquiring write lock'')
      | (True, None) \<Rightarrow>
         (case open_fault sy of
            Some f \<Rightarrow> Some (Wrapped ''failed to open history file'' (fault_error f))
          | None \<Rightarrow>
             (case tempfile_fault sy of
                Some f \<Rightarrow> Some (Wrapped ''failed to create temp file'' (fault_error f))
              | None \<Rightarrow>
                 (case encode_fault sy of
                    Some f \<Rightarrow> Some (Wrapped ''failed to write history'' (fault_error f))
                  | None \<Rightarrow>
                     (case replace_fault sy of
                        Some f \<Rightarrow> Some (Wrapped ''failed to update history file'' (fault_error f))
                      | None \<Rightarrow> None)))))"
  by (auto simp: Claim_file_def Let_def split: prod.splits option.splits bool.splits)

lemma Claim_file_success:
  assumes "fst (Claim_file sy m fs) = None"
  shows "snd (Claim_file sy m fs) =
           fs(path m := Json (claim_update m (now sy) (load_data sy (fs (path m)))))"
  using assms
  by (auto simp: Claim_file_def Let_def load_data_cases fun_eq_iff lock_file_def
      split: prod.splits option.splits bool.splits if_splits)

lemma Claim_file_ok:
  "sy = sys_ok t \<Longrightarrow> fst (Claim_file sy m fs) = None"
  by (simp add: Claim_file_def sys_ok_def Let_def)

lemma History_claim_update:
  "History (claim_update m t d) =
     (if History d \<noteq> [] \<and> Owner_file (hd (History d)) = identity_file m
      then (hd (History d))\<lparr>Timestamp := t\<rparr> # tl (History d)
      else Slice (\<lparr>Owner_file = identity_file m, Timestamp = t\<rparr> #
                    filter (\<lambda>e. Owner_file e \<noteq> identity_file m) (History d)) 0 (maxHistory_file m))"
  by (cases "History d") (auto simp: claim_update_def Let_def Filter_def hd_conv_nth)

lemma Current_claim_update:
  "Current (claim_update m t d) = \<lparr>Owner_file = identity_file m, Timestamp = t\<rparr>"
  by (simp add: claim_update_def Let_def)



lemma New_file_default:
  "New_file p ident [] = \<lparr>path = p, identity_file = ident, maxHistory_file = 100, lockTimeout = 5000000000\<rparr>"
  by (simp add: New_file_def)


lemma claim_update_bounded:
  assumes cap: "1 \<le> maxHistory_file m" and len: "length (History d) \<le> nat (maxHistory_file m)"
  shows "length (History (claim_update m t d)) \<le> nat (maxHistory_file m)"
    and "History (claim_update m t d) \<noteq> []"
    and "Owner_file (hd (History (claim_update m t d))) = identity_file m"
proof -
  from cap obtain k where k: "nat (maxHistory_file m) = Suc k"
    by (cases "nat (maxHistory_file m)") auto
  have n: "\<not> maxHistory_file m \<le> 0" using cap by simp
  show "length (History (claim_update m t d)) \<le> nat (maxHistory_file m)"
    using len n by (cases "History d") (auto simp: History_claim_update Slice_from_0)
  show "History (claim_update m t d) \<noteq> []"
    using n k by (simp add: History_claim_update Slice_from_0)
  show "Owner_file (hd (History (claim_update m t d))) = identity_file m"
    using n k by (simp add: History_claim_update Slice_from_0)
qed

lemma GetHistory_file_after_Claim:
  assumes "fst (Claim_file sy m fs) = None" "try_lock sy' = (True, None)" "open_fault sy' = None"
  shows "fst (GetHistory_file sy' m (snd (Claim_file sy m fs)))
           = (History (claim_update m (now sy) (load_data sy (fs (path m)))), None)"
  using assms(2,3) Claim_file_success[OF assms(1)]
  by (simp add: GetHistory_file_def readWithLock_cases)

lemma superseded_file:
  assumes A: "identity_file mA = A" "1 \<le> maxHistory_file mA"
    and B: "identity_file mB = B" "2 \<le> maxHistory_file mB"
    and p: "path mA = path mB"
    and e: "History (load_data s1 (fs (path mA))) = []"
    and c1: "Claim_file s1 mA fs = (None, fs1)"
    and st: "stat_fault s2 = None"
    and c2: "Claim_file s2 mB fs1 = (None, fs2)"
    and ne: "B \<noteq> A"
    and ok: "snd (snd (fst (CheckSuccession_file s3 mA fs2))) = None"
  shows "fst (CheckSuccession_file s3 mA fs2) = (False, True, None)"
proof -
  define d1 where "d1 = claim_update mA (now s1) (load_data s1 (fs (path mA)))"
  define d2 where "d2 = claim_update mB (now s2) d1"
  have fs1: "fs1 = fs(path mA := Json d1)"
    using Claim_file_success[of s1 mA fs] c1 by (simp add: d1_def)
  have h1: "History d1 = [\<lparr>Owner_file = A, Timestamp = now s1\<rparr>]"
    using e A by (simp add: d1_def History_claim_update Slice_from_0)
  have fs2: "fs2 = fs1(path mB := Json d2)"
    using Claim_file_success[of s2 mB fs1] c2 fs1 p st by (simp add: d2_def load_data_cases)
  have h2: "History d2 = [\<lparr>Owner_file = B, Timestamp = now s2\<rparr>, \<lparr>Owner_file = A, Timestamp = now s1\<rparr>]"
    using h1 B ne
    by (simp add: d2_def History_claim_update Slice_from_0 numeral_2_eq_2
        Suc_nat_eq_nat_zadd1 nat_le_iff take_Suc_conv_app_nth)
  have stored: "fs2 (path mA) = Json d2" using fs2 p by simp
  have lock: "try_lock s3 = (True, None)" and op: "open_fault s3 = None"
    using ok stored
    by (auto simp: CheckSuccession_file_def readWithLock_cases IsNotExist_def fault_error_not_exist
        split: prod.splits option.splits bool.splits if_splits)
  show ?thesis
    using CheckSuccession_file_json[of s3 fs2 mA d2] lock op stored h2 A ne by simp
qed

section \<open>Properties of the verifiers\<close>

subsection \<open>The runner\<close>

lemma group_wait_keeps_error: "group_wait vs order c (Some e) = Some e"
  by (induction order arbitrary: c) (auto split: option.splits)

lemma group_wait_all_succeed:
  "\<forall>i\<in>set order. Verify (vs ! i) c = None \<Longrightarrow> group_wait vs order c err = err"
  by (induction order) (auto simp: verifier_task_def)

lemma group_wait_first_error:
  assumes "\<forall>j\<in>set pre. Verify (vs ! j) c = None" and "Verify (vs ! i) c = Some e"
  shows "group_wait vs (pre @ i # post) c None = Some (Wrapped (String (vs ! i)) e)"
  using assms
  by (induction pre) (auto simp: verifier_task_def group_wait_keeps_error)

lemma completion_order_nth:
  "completion_order (length vs) order \<Longrightarrow> i \<in> set order \<Longrightarrow> vs ! i \<in> set vs"
  by (auto simp: completion_order_def)

lemma completion_order_covers:
  assumes "completion_order (length vs) order" and "v \<in> set vs"
  shows "\<exists>i\<in>set order. vs ! i = v"
proof -
  from assms(2) obtain i where "i < length vs" "vs ! i = v" by (auto simp: in_set_conv_nth)
  with assms(1) show ?thesis by (auto simp: completion_order_def)
qed

lemma Run_some_failure:
  assumes co: "completion_order (length vs) order" and f: "\<not> (\<forall>v\<in>set vs. Verify v c = None)"
  shows "\<exists>i e. i < length vs \<and> Verify (vs ! i) c = Some e \<and>
           Run order c vs = Some (Wrapped ''verification failed'' (Wrapped (String (vs ! i)) e))"
proof -
  from f obtain v where "v \<in> set vs" "Verify v c \<noteq> None" by blast
  with completion_order_covers[OF co] have "\<exists>i\<in>set order. Verify (vs ! i) c \<noteq> None" by metis
  then obtain pre i post where o: "order = pre @ i # post"
    and i: "Verify (vs ! i) c \<noteq> None" and pre: "\<forall>j\<in>set pre. \<not> Verify (vs ! j) c \<noteq> None"
    using split_list_first_prop[of order "\<lambda>i. Verify (vs ! i) c \<noteq> None"] by blast
  from i obtain e where e: "Verify (vs ! i) c = Some e" by auto
  from co o have "i < length vs" by (auto simp: completion_order_def)
  moreover have "Run order c vs = Some (Wrapped ''verification failed'' (Wrapped (String (vs ! i)) e))"
    using group_wait_first_error[of pre vs c i e post] pre e o by (simp add: Run_def)
  ultimately show ?thesis using e by blast
qed

subsection \<open>The hugepages loop\<close>

lemma hugepages_loop_skip:
  "\<forall>s\<in>set waits. hugepages_loop [s] = None \<Longrightarrow> hugepages_loop (waits @ rest) = hugepages_loop rest"
proof (induction waits)
  case Nil
  then show ?case by simp
next
  case (Cons s waits)
  then have s: "hugepages_loop [s] = None" and IH: "hugepages_loop (waits @ rest) = hugepages_loop rest"
    by simp_all
  show ?case
  proof (cases s)
    case (TickerC r)
    then show ?thesis using s IH by (cases r) (auto split: if_splits)
  next
    case (HpDone e)
    then show ?thesis using s by (auto split: if_splits)
  qed
qed

subsection \<open>The file removal verifier and its watch\<close>

lemma fr_missed_step:
  assumes "fr_missed env v s" and "\<And>p. mv \<noteq> Creates p"
  shows "fr_missed env v (fr_step env v s mv)"
proof (cases mv)
  case (Removes p)
  have "\<not> Match env (pattern v) p" if "p \<in> set (files s)"
    using assms(1) that by (auto simp: fr_missed_def filter_empty_conv)
  then show ?thesis
    using assms(1) Removes by (auto simp: fr_missed_def filter_empty_conv)
next
  case (Creates p)
  with assms(2)[of p] show ?thesis by blast
next
  case (CtxEnds e)
  then show ?thesis using assms(1) by (auto simp: fr_missed_def)
next
  case Step
  then show ?thesis using assms(1)
    by (cases "pc s") (auto simp: fr_missed_def split: option.splits)
next
  case SelectEvent
  then show ?thesis using assms(1)
    by (cases "pending s") (auto simp: fr_missed_def split: if_splits)
next
  case SelectEventsClosed
  then show ?thesis using assms(1) by (auto simp: fr_missed_def)
next
  case (SelectErrors r)
  then show ?thesis using assms(1) by (cases r) (auto simp: fr_missed_def)
next
  case SelectDone
  then show ?thesis using assms(1) by (auto simp: fr_missed_def split: option.splits)
qed

lemma fr_missed_fold:
  "fr_missed env v s \<Longrightarrow> \<forall>mv\<in>set moves. \<forall>p. mv \<noteq> Creates p \<Longrightarrow>
   fr_missed env v (fold (\<lambda>mv s. fr_step env v s mv) moves s)"
proof (induction moves arbitrary: s)
  case Nil
  then show ?case by simp
next
  case (Cons mv moves)
  then have "fr_missed env v (fr_step env v s mv)" by (intro fr_missed_step) auto
  with Cons show ?case by simp
qed

lemma fr_missed_never_succeeds:
  assumes "fr_missed env v s" and "\<forall>mv\<in>set moves. \<forall>p. mv \<noteq> Creates p"
  shows "fr_result (fold (\<lambda>mv s. fr_step env v s mv) moves s) \<noteq> Some None"
  using fr_missed_fold[OF assms] by (auto simp: fr_missed_def fr_result_def split: fr_pc.splits)

lemma removal_before_watch_never_reported:
  assumes g: "glob_fault env = None"
    and one: "filter (Match env (pattern v)) fs = [p]"
    and nc: "\<forall>mv\<in>set moves. \<forall>q. mv \<noteq> Creates q"
  shows "Verify_file_removal env v fs c (Step # Removes p # moves) \<noteq> Some None"
proof -
  let ?s = "fr_step env v (fr_step env v (fr_start fs c) Step) (Removes p)"
  have "p \<in> set (filter (Match env (pattern v)) fs)" using one by simp
  then have p: "p \<in> set fs" "Match env (pattern v) p" by simp_all
  have "filter (Match env (pattern v)) (removeAll p fs) = removeAll p (filter (Match env (pattern v)) fs)"
    by (induction fs) auto
  then have "filter (Match env (pattern v)) (removeAll p fs) = []" using one by simp
  then have "fr_missed env v ?s"
    using g one p by (simp add: fr_start_def fr_missed_def)
  then show ?thesis
    using fr_missed_never_succeeds[OF _ nc, of env v ?s] by (simp add: Verify_file_removal_def)
qed

section \<open>The claims\<close>

subsection \<open>Succession tracking\<close>

text \<open>
  C1 (supersession). From an empty log, \<open>A\<close> claims, then another identity \<open>B\<close> claims,
  then \<open>A\<close> checks: \<open>A\<close> gets \<open>(shouldProceed, isReplaced) = (False, True)\<close>. Identities
  are the non-empty strings (the SQLite tracker reads an empty current owner as an empty
  log). First conjunct: the SQLite tracker, with the markers that \<open>New\<close> builds. Second
  conjunct: the file tracker, with the markers that \<open>New_file\<close> builds by default.
\<close>

theorem supersession:
  "(New ioa p A st = Inr (mA, db0) \<and> rows db0 = [] \<and> Claim io1 mA db0 = (None, db1) \<and>
    New iob p B (Some db1) = Inr (mB, db1') \<and> Claim io2 mB db1' = (None, db2) \<and>
    B \<noteq> A \<and> B \<noteq> [] \<and> snd (snd (fst (CheckSuccession io3 mA db2))) = None
    \<longrightarrow> fst (CheckSuccession io3 mA db2) = (False, True, None))
   \<and>
   ((fs q = NotExist \<or> (\<exists>d. fs q = Json d \<and> History d = [])) \<and>
    Claim_file s1 (New_file q A []) fs = (None, fs1) \<and>
    stat_fault s2 = None \<and> Claim_file s2 (New_file q B []) fs1 = (None, fs2) \<and>
    B \<noteq> A \<and> snd (snd (fst (CheckSuccession_file s3 (New_file q A []) fs2))) = None
    \<longrightarrow> fst (CheckSuccession_file s3 (New_file q A []) fs2) = (False, True, None))"
proof (intro conjI impI)
  assume h: "New ioa p A st = Inr (mA, db0) \<and> rows db0 = [] \<and> Claim io1 mA db0 = (None, db1) \<and>
    New iob p B (Some db1) = Inr (mB, db1') \<and> Claim io2 mB db1' = (None, db2) \<and>
    B \<noteq> A \<and> B \<noteq> [] \<and> snd (snd (fst (CheckSuccession io3 mA db2))) = None"
  then have mA: "identity mA = A" "2 \<le> maxHistory mA"
    using New_ok[of ioa p A st mA db0] by simp_all
  from h have mB: "identity mB = B" "2 \<le> maxHistory mB" and d: "db1' = db1"
    using New_ok[of iob p B "Some db1" mB db1'] by simp_all
  from h d show "fst (CheckSuccession io3 mA db2) = (False, True, None)"
    by (intro superseded_sqlite[OF mA mB, of db0 io1 db1 io2 db2 io3]) simp_all
next
  assume h: "(fs q = NotExist \<or> (\<exists>d. fs q = Json d \<and> History d = [])) \<and>
    Claim_file s1 (New_file q A []) fs = (None, fs1) \<and>
    stat_fault s2 = None \<and> Claim_file s2 (New_file q B []) fs1 = (None, fs2) \<and>
    B \<noteq> A \<and> snd (snd (fst (CheckSuccession_file s3 (New_file q A []) fs2))) = None"
  then have e: "History (load_data s1 (fs (path (New_file q A [])))) = []"
    by (auto simp: load_data_cases New_file_default fresh_data_def)
  from h show "fst (CheckSuccession_file s3 (New_file q A []) fs2) = (False, True, None)"
    by (intro superseded_file[of "New_file q A []" A "New_file q B []" B s1 fs fs1 s2 fs2 s3] e)
       (simp_all add: New_file_default)
qed

theorem supersession_witness:
  "fst (CheckSuccession no_faults \<lparr>identity = ''pod-1'', maxHistory = 25\<rparr>
         \<lparr>rows = [\<lparr>ID = 1, Owner = ''pod-1''\<rparr>, \<lparr>ID = 2, Owner = ''pod-2''\<rparr>], seq = 2\<rparr>)
     = (False, True, None)
   \<and> fst (CheckSuccession_file (sys_ok 3) (New_file ''f'' ''pod-1'' [])
         ((\<lambda>x. NotExist)(''f'' := Json \<lparr>Current = \<lparr>Owner_file = ''pod-2'', Timestamp = 2\<rparr>,
              History = [\<lparr>Owner_file = ''pod-2'', Timestamp = 2\<rparr>, \<lparr>Owner_file = ''pod-1'', Timestamp = 1\<rparr>],
              Version = 2\<rparr>)))
     = (False, True, None)"
proof -
  have n1: "New no_faults ''db'' ''pod-1'' None = Inr (\<lparr>identity = ''pod-1'', maxHistory = 25\<rparr>, empty_db)"
    by (simp add: New_def no_faults_def)
  have c1: "Claim no_faults \<lparr>identity = ''pod-1'', maxHistory = 25\<rparr> empty_db
              = (None, \<lparr>rows = [\<lparr>ID = 1, Owner = ''pod-1''\<rparr>], seq = 1\<rparr>)"
    by (simp add: Claim_def Transaction_def Claim_tx_def db_Create_def db_Count_def no_faults_def
        empty_db_def next_id_def)
  have n2: "New no_faults ''db'' ''pod-2'' (Some \<lparr>rows = [\<lparr>ID = 1, Owner = ''pod-1''\<rparr>], seq = 1\<rparr>)
              = Inr (\<lparr>identity = ''pod-2'', maxHistory = 25\<rparr>, \<lparr>rows = [\<lparr>ID = 1, Owner = ''pod-1''\<rparr>], seq = 1\<rparr>)"
    by (simp add: New_def no_faults_def)
  have c2: "Claim no_faults \<lparr>identity = ''pod-2'', maxHistory = 25\<rparr> \<lparr>rows = [\<lparr>ID = 1, Owner = ''pod-1''\<rparr>], seq = 1\<rparr>
              = (None, \<lparr>rows = [\<lparr>ID = 1, Owner = ''pod-1''\<rparr>, \<lparr>ID = 2, Owner = ''pod-2''\<rparr>], seq = 2\<rparr>)"
    by (simp add: Claim_def Transaction_def Claim_tx_def db_Create_def db_Count_def no_faults_def
        next_id_def)
  have k: "snd (snd (fst (CheckSuccession no_faults \<lparr>identity = ''pod-1'', maxHistory = 25\<rparr>
         \<lparr>rows = [\<lparr>ID = 1, Owner = ''pod-1''\<rparr>, \<lparr>ID = 2, Owner = ''pod-2''\<rparr>], seq = 2\<rparr>))) = None"
    by (simp add: CheckSuccession_def CurrentOwner_def db_First_def db_CountOwner_def no_faults_def
        order_id_desc_def)
  have f1: "Claim_file (sys_ok 1) (New_file ''f'' ''pod-1'' []) (\<lambda>x. NotExist)
              = (None, (\<lambda>x. NotExist)(''f'' := Json \<lparr>Current = \<lparr>Owner_file = ''pod-1'', Timestamp = 1\<rparr>,
                   History = [\<lparr>Owner_file = ''pod-1'', Timestamp = 1\<rparr>], Version = 1\<rparr>))"
    by (simp add: Claim_file_def sys_ok_def New_file_def load_data_def claim_update_def fresh_data_def
        Filter_def Slice_def Let_def lock_file_def int_inc_def)
  have f2: "Claim_file (sys_ok 2) (New_file ''f'' ''pod-2'' [])
              ((\<lambda>x. NotExist)(''f'' := Json \<lparr>Current = \<lparr>Owner_file = ''pod-1'', Timestamp = 1\<rparr>,
                   History = [\<lparr>Owner_file = ''pod-1'', Timestamp = 1\<rparr>], Version = 1\<rparr>))
              = (None, (\<lambda>x. NotExist)(''f'' := Json \<lparr>Current = \<lparr>Owner_file = ''pod-2'', Timestamp = 2\<rparr>,
              History = [\<lparr>Owner_file = ''pod-2'', Timestamp = 2\<rparr>, \<lparr>Owner_file = ''pod-1'', Timestamp = 1\<rparr>],
              Version = 2\<rparr>))"
    by (simp add: Claim_file_def sys_ok_def New_file_def load_data_def claim_update_def fresh_data_def
        Filter_def Slice_def Let_def lock_file_def int_inc_def)
  have k2: "snd (snd (fst (CheckSuccession_file (sys_ok 3) (New_file ''f'' ''pod-1'' [])
         ((\<lambda>x. NotExist)(''f'' := Json \<lparr>Current = \<lparr>Owner_file = ''pod-2'', Timestamp = 2\<rparr>,
              History = [\<lparr>Owner_file = ''pod-2'', Timestamp = 2\<rparr>, \<lparr>Owner_file = ''pod-1'', Timestamp = 1\<rparr>],
              Version = 2\<rparr>))))) = None"
    by (simp add: CheckSuccession_file_def readWithLock_def sys_ok_def New_file_def FindIndexOf_def Let_def
        lock_file_def)
  have s: "stat_fault (sys_ok 2) = None" by (simp add: sys_ok_def)
  show ?thesis
    using supersession[of no_faults "''db''" "''pod-1''" None "\<lparr>identity = ''pod-1'', maxHistory = 25\<rparr>"
        empty_db no_faults "\<lparr>rows = [\<lparr>ID = 1, Owner = ''pod-1''\<rparr>], seq = 1\<rparr>"
        no_faults "''pod-2''" "\<lparr>identity = ''pod-2'', maxHistory = 25\<rparr>"
        "\<lparr>rows = [\<lparr>ID = 1, Owner = ''pod-1''\<rparr>], seq = 1\<rparr>" no_faults
        "\<lparr>rows = [\<lparr>ID = 1, Owner = ''pod-1''\<rparr>, \<lparr>ID = 2, Owner = ''pod-2''\<rparr>], seq = 2\<rparr>" no_faults
        "\<lambda>x. NotExist" "''f''" "sys_ok 1" _ "sys_ok 2" _ "sys_ok 3"]
      n1 c1 n2 c2 k f1 f2 k2 s
    by (simp add: empty_db_def)
qed

text \<open>
  C2 (append-only), as the claim states it: a claim by the current owner adds an entry
  and changes none. File tracker: the owner at the top of the history claims again; the
  history keeps its one entry, whose timestamp is overwritten. SQLite tracker: the log
  holds 25 rows of \<^verbatim>\<open>pod-1\<close>, which claims again; the new row is added, the oldest row is
  trimmed, and the log holds 25 rows of \<^verbatim>\<open>pod-1\<close> as before.
\<close>

theorem append_only_counterexample:
  "Claim_file (sys_ok 2) (New_file ''f'' ''pod-1'' [])
      (no_files(''f'' := Json \<lparr>Current = \<lparr>Owner_file = ''pod-1'', Timestamp = 1\<rparr>,
         History = [\<lparr>Owner_file = ''pod-1'', Timestamp = 1\<rparr>], Version = 1\<rparr>))
     = (None, no_files(''f'' := Json \<lparr>Current = \<lparr>Owner_file = ''pod-1'', Timestamp = 2\<rparr>,
         History = [\<lparr>Owner_file = ''pod-1'', Timestamp = 2\<rparr>], Version = 2\<rparr>))
   \<and> fst (Claim no_faults \<lparr>identity = ''pod-1'', maxHistory = 25\<rparr>
        \<lparr>rows = map (\<lambda>i. \<lparr>ID = i, Owner = ''pod-1''\<rparr>) [1..<26], seq = 25\<rparr>) = None
   \<and> length (filter (\<lambda>r. Owner r = ''pod-1'') (map (\<lambda>i. \<lparr>ID = i, Owner = ''pod-1''\<rparr>) [1..<26])) = 25
   \<and> length (filter (\<lambda>r. Owner r = ''pod-1'')
        (rows (snd (Claim no_faults \<lparr>identity = ''pod-1'', maxHistory = 25\<rparr>
           \<lparr>rows = map (\<lambda>i. \<lparr>ID = i, Owner = ''pod-1''\<rparr>) [1..<26], seq = 25\<rparr>)))) = 25"
proof -
  let ?m = "\<lparr>identity = ''pod-1'', maxHistory = 25\<rparr>"
  let ?rs = "map (\<lambda>i. \<lparr>ID = i, Owner = ''pod-1''\<rparr>) [1..<26]"
  let ?db = "\<lparr>rows = ?rs, seq = 25\<rparr>"
  let ?P = "\<lambda>r. Owner r = ''pod-1''"
  have f: "Claim_file (sys_ok 2) (New_file ''f'' ''pod-1'' [])
      (no_files(''f'' := Json \<lparr>Current = \<lparr>Owner_file = ''pod-1'', Timestamp = 1\<rparr>,
         History = [\<lparr>Owner_file = ''pod-1'', Timestamp = 1\<rparr>], Version = 1\<rparr>))
     = (None, no_files(''f'' := Json \<lparr>Current = \<lparr>Owner_file = ''pod-1'', Timestamp = 2\<rparr>,
         History = [\<lparr>Owner_file = ''pod-1'', Timestamp = 2\<rparr>], Version = 2\<rparr>))"
    by (simp add: Claim_file_def sys_ok_def New_file_def load_data_def claim_update_def Let_def no_files_def
        lock_file_def int_inc_def)
  have ok: "fst (Claim no_faults ?m ?db) = None"
    by (simp add: Claim_def Transaction_def Claim_tx_def db_Create_def db_Count_def
        db_DeleteNotIn_def no_faults_def)
  have ids: "map ID ?rs = [1..<26]" by (simp add: map_idI)
  then have wf: "wf_db ?db" by (simp add: wf_db_def del: map_map)
  have all: "filter ?P ?rs = ?rs" by (intro filter_True) auto
  then have before: "length (filter ?P ?rs) = 25" by simp
  have h: "order_id_desc (rows (snd (Claim no_faults ?m ?db)))
      = take 25 (\<lparr>ID = next_id ?db, Owner = ''pod-1''\<rparr> # order_id_desc ?rs)"
    using Claim_history[OF wf ok] by (simp add: sql_limit_def)
  have l: "length (rows (snd (Claim no_faults ?m ?db))) = 25"
    using arg_cong[OF h, of length] by (simp add: length_order_id_desc)
  have "set (rows (snd (Claim no_faults ?m ?db))) = set (order_id_desc (rows (snd (Claim no_faults ?m ?db))))"
    by (simp add: set_order_id_desc)
  also have "\<dots> \<subseteq> set (\<lparr>ID = next_id ?db, Owner = ''pod-1''\<rparr> # order_id_desc ?rs)"
    unfolding h by (rule set_take_subset)
  finally have "\<forall>r\<in>set (rows (snd (Claim no_faults ?m ?db))). ?P r"
    by (auto simp: set_order_id_desc)
  then have "filter ?P (rows (snd (Claim no_faults ?m ?db))) = rows (snd (Claim no_faults ?m ?db))"
    by (intro filter_True)
  with l have after: "length (filter ?P (rows (snd (Claim no_faults ?m ?db)))) = 25" by simp
  from f ok before after show ?thesis by (intro conjI)
qed

text \<open>
  C2 as amended. SQLite tracker: a successful claim inserts a row under a key larger than
  every key in the table; \<open>GetHistory\<close> then returns the new entry followed by the former
  history, unchanged, cut after \<open>maxHistory\<close> entries; when the table held fewer than
  \<open>maxHistory\<close> rows the claiming identity has one more row than before. File tracker:
  when the claiming identity is at the top of the history, the claim adds no entry and
  overwrites the timestamp of the top entry; otherwise it puts the new entry in front of
  the former entries of the other identities and keeps the first \<open>maxHistory\<close>.
\<close>

theorem append_only:
  "(wf_db db \<and> fst (Claim io m db) = None \<and> 0 \<le> maxHistory m \<and> io' QFind = None \<longrightarrow>
      fst (fst (GetHistory io' m' (snd (Claim io m db))))
        = take (nat (maxHistory m))
            (\<lparr>ID = next_id db, Owner = identity m\<rparr> # fst (fst (GetHistory io' m' db))) \<and>
      (\<forall>r\<in>set (rows db). ID r < next_id db) \<and>
      (int (length (rows db)) < maxHistory m \<longrightarrow>
         length (filter (\<lambda>r. Owner r = identity m) (fst (fst (GetHistory io' m' (snd (Claim io m db))))))
           = length (filter (\<lambda>r. Owner r = identity m) (fst (fst (GetHistory io' m' db)))) + 1))
   \<and> (fst (Claim_file sy fm fs) = None \<and> try_lock sy' = (True, None) \<and> open_fault sy' = None \<longrightarrow>
      fst (fst (GetHistory_file sy' fm (snd (Claim_file sy fm fs))))
        = (if History (load_data sy (fs (path fm))) \<noteq> [] \<and>
              Owner_file (hd (History (load_data sy (fs (path fm))))) = identity_file fm
           then (hd (History (load_data sy (fs (path fm)))))\<lparr>Timestamp := now sy\<rparr> #
                tl (History (load_data sy (fs (path fm))))
           else Slice (\<lparr>Owner_file = identity_file fm, Timestamp = now sy\<rparr> #
                         filter (\<lambda>e. Owner_file e \<noteq> identity_file fm)
                           (History (load_data sy (fs (path fm)))))
                      0 (maxHistory_file fm)))"
proof (intro conjI impI ballI)
  assume h: "wf_db db \<and> fst (Claim io m db) = None \<and> 0 \<le> maxHistory m \<and> io' QFind = None"
  then have wf: "wf_db db" and ok: "fst (Claim io m db) = None"
    and g: "\<And>d. fst (fst (GetHistory io' m' d)) = order_id_desc (rows d)"
    by (simp_all add: GetHistory_ok)
  show "fst (fst (GetHistory io' m' (snd (Claim io m db))))
        = take (nat (maxHistory m))
            (\<lparr>ID = next_id db, Owner = identity m\<rparr> # fst (fst (GetHistory io' m' db)))"
    using Claim_history[OF wf ok] h by (simp add: g sql_limit_def)
  show "ID r < next_id db" if "r \<in> set (rows db)" for r
    using that by (rule next_id_fresh)
  assume "int (length (rows db)) < maxHistory m"
  then show "length (filter (\<lambda>r. Owner r = identity m) (fst (fst (GetHistory io' m' (snd (Claim io m db))))))
           = length (filter (\<lambda>r. Owner r = identity m) (fst (fst (GetHistory io' m' db)))) + 1"
    using Claim_count_owner[OF wf ok] by (simp add: g count_owner_order)
next
  assume "fst (Claim_file sy fm fs) = None \<and> try_lock sy' = (True, None) \<and> open_fault sy' = None"
  then show "fst (fst (GetHistory_file sy' fm (snd (Claim_file sy fm fs))))
        = (if History (load_data sy (fs (path fm))) \<noteq> [] \<and>
              Owner_file (hd (History (load_data sy (fs (path fm))))) = identity_file fm
           then (hd (History (load_data sy (fs (path fm)))))\<lparr>Timestamp := now sy\<rparr> #
                tl (History (load_data sy (fs (path fm))))
           else Slice (\<lparr>Owner_file = identity_file fm, Timestamp = now sy\<rparr> #
                         filter (\<lambda>e. Owner_file e \<noteq> identity_file fm)
                           (History (load_data sy (fs (path fm)))))
                      0 (maxHistory_file fm))"
    using GetHistory_file_after_Claim[of sy fm fs sy'] by (simp add: History_claim_update)
qed

text \<open>
  The test \<^verbatim>\<open>TestExistingPodRestart\<close>: \<^verbatim>\<open>pod-1\<close> claims twice and the history holds two
  entries of \<^verbatim>\<open>pod-1\<close>; in the file tracker the second claim leaves one.
\<close>

theorem append_only_witness:
  "fst (fst (GetHistory no_faults \<lparr>identity = ''pod-1'', maxHistory = 25\<rparr>
      (snd (Claim no_faults \<lparr>identity = ''pod-1'', maxHistory = 25\<rparr>
             \<lparr>rows = [\<lparr>ID = 1, Owner = ''pod-1''\<rparr>], seq = 1\<rparr>))))
     = [\<lparr>ID = 2, Owner = ''pod-1''\<rparr>, \<lparr>ID = 1, Owner = ''pod-1''\<rparr>]
   \<and> length (filter (\<lambda>r. Owner r = ''pod-1'')
        (fst (fst (GetHistory no_faults \<lparr>identity = ''pod-1'', maxHistory = 25\<rparr>
           (snd (Claim no_faults \<lparr>identity = ''pod-1'', maxHistory = 25\<rparr>
                  \<lparr>rows = [\<lparr>ID = 1, Owner = ''pod-1''\<rparr>], seq = 1\<rparr>)))))) = 2
   \<and> fst (fst (GetHistory_file (sys_ok 3) (New_file ''f'' ''pod-1'' [])
      (snd (Claim_file (sys_ok 2) (New_file ''f'' ''pod-1'' [])
         (no_files(''f'' := Json \<lparr>Current = \<lparr>Owner_file = ''pod-1'', Timestamp = 1\<rparr>,
            History = [\<lparr>Owner_file = ''pod-1'', Timestamp = 1\<rparr>], Version = 1\<rparr>))))))
     = [\<lparr>Owner_file = ''pod-1'', Timestamp = 2\<rparr>]"
proof -
  let ?m = "\<lparr>identity = ''pod-1'', maxHistory = 25\<rparr>"
  let ?db = "\<lparr>rows = [\<lparr>ID = 1, Owner = ''pod-1''\<rparr>], seq = 1\<rparr>"
  let ?fm = "New_file ''f'' ''pod-1'' []"
  let ?d = "\<lparr>Current = \<lparr>Owner_file = ''pod-1'', Timestamp = 1\<rparr>,
            History = [\<lparr>Owner_file = ''pod-1'', Timestamp = 1\<rparr>], Version = 1\<rparr>"
  let ?fs = "no_files(''f'' := Json ?d)"
  note t = append_only[of ?db no_faults ?m no_faults ?m "sys_ok 2" ?fm ?fs "sys_ok 3"]
  have a: "wf_db ?db \<and> fst (Claim no_faults ?m ?db) = None \<and> 0 \<le> maxHistory ?m \<and> no_faults QFind = None"
    by (simp add: wf_db_def Claim_def Transaction_def Claim_tx_def db_Create_def db_Count_def
        no_faults_def next_id_def)
  have c: "fst (Claim_file (sys_ok 2) ?fm ?fs) = None \<and> try_lock (sys_ok 3) = (True, None) \<and>
           open_fault (sys_ok 3) = None"
    by (simp add: Claim_file_ok sys_ok_def)
  have g: "fst (fst (GetHistory no_faults ?m ?db)) = [\<lparr>ID = 1, Owner = ''pod-1''\<rparr>]"
    by (simp add: GetHistory_def db_Find_def no_faults_def order_id_desc_def)
  have n: "next_id ?db = 2" by (simp add: next_id_def)
  have l: "load_data (sys_ok 2) (?fs (path ?fm)) = ?d"
    by (simp add: New_file_def load_data_cases sys_ok_def)
  from t a have r1: "fst (fst (GetHistory no_faults ?m (snd (Claim no_faults ?m ?db))))
        = take (nat (maxHistory ?m)) (\<lparr>ID = next_id ?db, Owner = identity ?m\<rparr> # fst (fst (GetHistory no_faults ?m ?db)))"
    by blast
  from t c have r2: "fst (fst (GetHistory_file (sys_ok 3) ?fm (snd (Claim_file (sys_ok 2) ?fm ?fs))))
        = (if History (load_data (sys_ok 2) (?fs (path ?fm))) \<noteq> [] \<and>
              Owner_file (hd (History (load_data (sys_ok 2) (?fs (path ?fm))))) = identity_file ?fm
           then (hd (History (load_data (sys_ok 2) (?fs (path ?fm)))))\<lparr>Timestamp := now (sys_ok 2)\<rparr> #
                tl (History (load_data (sys_ok 2) (?fs (path ?fm))))
           else Slice (\<lparr>Owner_file = identity_file ?fm, Timestamp = now (sys_ok 2)\<rparr> #
                         filter (\<lambda>e. Owner_file e \<noteq> identity_file ?fm)
                           (History (load_data (sys_ok 2) (?fs (path ?fm)))))
                      0 (maxHistory_file ?fm))"
    by blast
  have s1: "fst (fst (GetHistory no_faults ?m (snd (Claim no_faults ?m ?db))))
     = [\<lparr>ID = 2, Owner = ''pod-1''\<rparr>, \<lparr>ID = 1, Owner = ''pod-1''\<rparr>]"
    unfolding r1 g n by simp
  have s2: "fst (fst (GetHistory_file (sys_ok 3) ?fm (snd (Claim_file (sys_ok 2) ?fm ?fs))))
     = [\<lparr>Owner_file = ''pod-1'', Timestamp = 2\<rparr>]"
    unfolding r2 l by (simp add: New_file_def sys_ok_def)
  have room: "int (length (rows ?db)) < maxHistory ?m" by simp
  from t a room have "length (filter (\<lambda>r. Owner r = identity ?m)
        (fst (fst (GetHistory no_faults ?m (snd (Claim no_faults ?m ?db))))))
      = length (filter (\<lambda>r. Owner r = identity ?m) (fst (fst (GetHistory no_faults ?m ?db)))) + 1"
    by blast
  then have s3: "length (filter (\<lambda>r. Owner r = ''pod-1'')
        (fst (fst (GetHistory no_faults ?m (snd (Claim no_faults ?m ?db)))))) = 2"
    unfolding g by simp
  from s1 s3 s2 show ?thesis by (intro conjI)
qed

text \<open>
  C3 (bounded history), as the claim states it: the cap is 25 by default. The file
  tracker's \<open>New\<close> sets 100: on a log of 25 other owners a claim by a default marker
  succeeds and leaves 26 entries.
\<close>

theorem bounded_history_counterexample:
  "maxHistory_file (New_file ''f'' ''pod-new'' []) = 100
   \<and> fst (Claim_file (sys_ok 26) (New_file ''f'' ''pod-new'' [])
        (no_files(''f'' := Json \<lparr>Current = \<lparr>Owner_file = replicate 25 CHR ''a'', Timestamp = 25\<rparr>,
           History = map (\<lambda>n. \<lparr>Owner_file = replicate n CHR ''a'', Timestamp = int n\<rparr>) (rev [1..<26]),
           Version = 25\<rparr>))) = None
   \<and> length (fst (fst (GetHistory_file (sys_ok 27) (New_file ''f'' ''pod-new'' [])
        (snd (Claim_file (sys_ok 26) (New_file ''f'' ''pod-new'' [])
        (no_files(''f'' := Json \<lparr>Current = \<lparr>Owner_file = replicate 25 CHR ''a'', Timestamp = 25\<rparr>,
           History = map (\<lambda>n. \<lparr>Owner_file = replicate n CHR ''a'', Timestamp = int n\<rparr>) (rev [1..<26]),
           Version = 25\<rparr>))))))) = 26"
proof -
  let ?m = "New_file ''f'' ''pod-new'' []"
  let ?h = "map (\<lambda>n. \<lparr>Owner_file = replicate n CHR ''a'', Timestamp = int n\<rparr>) (rev [1..<26])"
  let ?d = "\<lparr>Current = \<lparr>Owner_file = replicate 25 CHR ''a'', Timestamp = 25\<rparr>, History = ?h, Version = 25\<rparr>"
  let ?fs = "no_files(''f'' := Json ?d)"
  have ok: "fst (Claim_file (sys_ok 26) ?m ?fs) = None" by (simp add: Claim_file_ok)
  have m: "path ?m = ''f''" "identity_file ?m = ''pod-new''" "maxHistory_file ?m = 100"
    by (simp_all add: New_file_def)
  have others: "Owner_file e \<noteq> ''pod-new''" if "e \<in> set ?h" for e
  proof -
    from that obtain n where "Owner_file e = replicate n CHR ''a''" by auto
    moreover have "replicate n CHR ''a'' \<noteq> ''pod-new''" by (cases n) simp_all
    ultimately show ?thesis by simp
  qed
  then have keep: "filter (\<lambda>e. Owner_file e \<noteq> ''pod-new'') ?h = ?h"
    by (intro filter_True) blast
  have ne: "?h \<noteq> []" by simp
  then have "hd ?h \<in> set ?h" by (rule hd_in_set)
  then have "Owner_file (hd ?h) \<noteq> ''pod-new''" by (rule others)
  with ne have top: "?h \<noteq> []" "Owner_file (hd ?h) \<noteq> ''pod-new''" by blast+
  have ld: "load_data (sys_ok 26) (?fs (path ?m)) = ?d"
    by (simp add: m load_data_cases sys_ok_def)
  have "History (claim_update ?m (now (sys_ok 26)) ?d)
          = take 100 (\<lparr>Owner_file = ''pod-new'', Timestamp = now (sys_ok 26)\<rparr> # ?h)"
    using top keep by (simp add: History_claim_update m Slice_from_0)
  then have "length (History (claim_update ?m (now (sys_ok 26)) ?d)) = 26" by simp
  moreover have "fst (GetHistory_file (sys_ok 27) ?m (snd (Claim_file (sys_ok 26) ?m ?fs)))
      = (History (claim_update ?m (now (sys_ok 26)) ?d), None)"
    using GetHistory_file_after_Claim[OF ok, of "sys_ok 27"] ld by (simp add: sys_ok_def)
  ultimately show ?thesis using ok m(3) by simp
qed

text \<open>
  C3 as amended. SQLite tracker: \<open>New\<close> sets the cap to 25; after a successful claim
  \<open>GetHistory\<close> returns the first 25 of the new entry followed by the former history, so
  it has at most 25 entries, the claimant's entry is first and only the oldest entries are
  dropped; hence after any number of successive claims the history has at most 25 entries
  and its first entry is the last claimant's. File tracker: \<open>New_file\<close> sets the cap to
  100 by default; when the marker's cap is at least 1 and the log is within it before the
  claim, so it is after, the claimant's entry is first, and \<open>GetHistory_file\<close> returns
  either the former history with the timestamp of its first entry renewed, or the first
  cap entries of the new entry followed by the former entries of other owners.
\<close>

theorem bounded_history:
  "(New ion p ident st = Inr (m0, db0) \<longrightarrow> maxHistory m0 = 25)
   \<and> (maxHistory m = 25 \<and> wf_db db \<and> fst (Claim io m db) = None \<and> io' QFind = None \<longrightarrow>
        fst (fst (GetHistory io' m' (snd (Claim io m db))))
          = take 25 (\<lparr>ID = next_id db, Owner = identity m\<rparr> # fst (fst (GetHistory io' m' db))) \<and>
        length (fst (fst (GetHistory io' m' (snd (Claim io m db))))) \<le> 25 \<and>
        Owner (hd (fst (fst (GetHistory io' m' (snd (Claim io m db)))))) = identity m \<and>
        wf_db (snd (Claim io m db)))
   \<and> (wf_db db \<and> ms \<noteq> [] \<and> (\<forall>x\<in>set ms. maxHistory x = 25) \<and> io' QFind = None \<longrightarrow>
        length (fst (fst (GetHistory io' m' (fold (\<lambda>x d. snd (Claim no_faults x d)) ms db)))) \<le> 25 \<and>
        Owner (hd (fst (fst (GetHistory io' m' (fold (\<lambda>x d. snd (Claim no_faults x d)) ms db)))))
          = identity (last ms))
   \<and> maxHistory_file (New_file q ident []) = 100
   \<and> (fst (Claim_file sy fm fs) = None \<and> 1 \<le> maxHistory_file fm \<and>
       length (History (load_data sy (fs (path fm)))) \<le> nat (maxHistory_file fm) \<and>
       try_lock sy' = (True, None) \<and> open_fault sy' = None \<longrightarrow>
        length (fst (fst (GetHistory_file sy' fm (snd (Claim_file sy fm fs))))) \<le> nat (maxHistory_file fm) \<and>
        fst (fst (GetHistory_file sy' fm (snd (Claim_file sy fm fs)))) \<noteq> [] \<and>
        Owner_file (hd (fst (fst (GetHistory_file sy' fm (snd (Claim_file sy fm fs)))))) = identity_file fm \<and>
        fst (fst (GetHistory_file sy' fm (snd (Claim_file sy fm fs))))
          = (if History (load_data sy (fs (path fm))) \<noteq> [] \<and>
                Owner_file (hd (History (load_data sy (fs (path fm))))) = identity_file fm
             then (hd (History (load_data sy (fs (path fm)))))\<lparr>Timestamp := now sy\<rparr> #
                  tl (History (load_data sy (fs (path fm))))
             else take (nat (maxHistory_file fm))
                    (\<lparr>Owner_file = identity_file fm, Timestamp = now sy\<rparr> #
                     filter (\<lambda>e. Owner_file e \<noteq> identity_file fm) (History (load_data sy (fs (path fm)))))))"
proof (intro conjI impI)
  assume "New ion p ident st = Inr (m0, db0)"
  then show "maxHistory m0 = 25" using New_ok[of ion p ident st m0 db0] by simp
next
  assume h: "maxHistory m = 25 \<and> wf_db db \<and> fst (Claim io m db) = None \<and> io' QFind = None"
  then have wf: "wf_db db" and ok: "fst (Claim io m db) = None" and pos: "0 < maxHistory m"
    and g: "\<And>d. fst (fst (GetHistory io' m' d)) = order_id_desc (rows d)"
    by (simp_all add: GetHistory_ok)
  show "fst (fst (GetHistory io' m' (snd (Claim io m db))))
          = take 25 (\<lparr>ID = next_id db, Owner = identity m\<rparr> # fst (fst (GetHistory io' m' db)))"
    using Claim_history[OF wf ok] h by (simp add: g sql_limit_def)
  show "length (fst (fst (GetHistory io' m' (snd (Claim io m db))))) \<le> 25"
    using Claim_bounded(1)[OF wf ok pos] h by (simp add: g)
  show "Owner (hd (fst (fst (GetHistory io' m' (snd (Claim io m db)))))) = identity m"
    using Claim_bounded(3)[OF wf ok pos] by (simp add: g)
  show "wf_db (snd (Claim io m db))" using wf by (rule wf_db_Claim)
next
  assume h: "wf_db db \<and> ms \<noteq> [] \<and> (\<forall>x\<in>set ms. maxHistory x = 25) \<and> io' QFind = None"
  then have wf: "wf_db db" and ms: "ms \<noteq> []" and cap: "\<forall>x\<in>set ms. 0 < maxHistory x"
    and l: "maxHistory (last ms) = 25"
    and g: "\<And>d. fst (fst (GetHistory io' m' d)) = order_id_desc (rows d)"
    by (simp_all add: GetHistory_ok)
  show "length (fst (fst (GetHistory io' m' (fold (\<lambda>x d. snd (Claim no_faults x d)) ms db)))) \<le> 25"
    using claims_fold(2)[OF wf ms cap] l by (simp add: g)
  show "Owner (hd (fst (fst (GetHistory io' m' (fold (\<lambda>x d. snd (Claim no_faults x d)) ms db)))))
          = identity (last ms)"
    using claims_fold(3)[OF wf ms cap] by (simp add: g)
next
  show "maxHistory_file (New_file q ident []) = 100" by (simp add: New_file_def)
next
  assume h: "fst (Claim_file sy fm fs) = None \<and> 1 \<le> maxHistory_file fm \<and>
       length (History (load_data sy (fs (path fm)))) \<le> nat (maxHistory_file fm) \<and>
       try_lock sy' = (True, None) \<and> open_fault sy' = None"
  then have g: "fst (fst (GetHistory_file sy' fm (snd (Claim_file sy fm fs))))
      = History (claim_update fm (now sy) (load_data sy (fs (path fm))))"
    using GetHistory_file_after_Claim[of sy fm fs sy'] by simp
  from h have cap: "1 \<le> maxHistory_file fm"
    and len: "length (History (load_data sy (fs (path fm)))) \<le> nat (maxHistory_file fm)"
    by simp_all
  show "length (fst (fst (GetHistory_file sy' fm (snd (Claim_file sy fm fs))))) \<le> nat (maxHistory_file fm)"
    unfolding g using cap len by (rule claim_update_bounded(1))
  show "fst (fst (GetHistory_file sy' fm (snd (Claim_file sy fm fs)))) \<noteq> []"
    unfolding g using cap len by (rule claim_update_bounded(2))
  show "Owner_file (hd (fst (fst (GetHistory_file sy' fm (snd (Claim_file sy fm fs)))))) = identity_file fm"
    unfolding g using cap len by (rule claim_update_bounded(3))
  show "fst (fst (GetHistory_file sy' fm (snd (Claim_file sy fm fs))))
          = (if History (load_data sy (fs (path fm))) \<noteq> [] \<and>
                Owner_file (hd (History (load_data sy (fs (path fm))))) = identity_file fm
             then (hd (History (load_data sy (fs (path fm)))))\<lparr>Timestamp := now sy\<rparr> #
                  tl (History (load_data sy (fs (path fm))))
             else take (nat (maxHistory_file fm))
                    (\<lparr>Owner_file = identity_file fm, Timestamp = now sy\<rparr> #
                     filter (\<lambda>e. Owner_file e \<noteq> identity_file fm) (History (load_data sy (fs (path fm))))))"
    unfolding g using cap by (simp add: History_claim_update Slice_from_0)
qed

theorem bounded_history_witness:
  "maxHistory (fst (projr (New no_faults ''db'' ''pod-1'' None))) = 25
   \<and> Owner (hd (fst (fst (GetHistory no_faults \<lparr>identity = ''pod-2'', maxHistory = 25\<rparr>
      (snd (Claim no_faults \<lparr>identity = ''pod-2'', maxHistory = 25\<rparr>
             \<lparr>rows = [\<lparr>ID = 1, Owner = ''pod-1''\<rparr>], seq = 1\<rparr>)))))) = ''pod-2''
   \<and> length (fst (fst (GetHistory no_faults \<lparr>identity = ''pod-2'', maxHistory = 25\<rparr>
      (fold (\<lambda>x d. snd (Claim no_faults x d))
         [\<lparr>identity = ''pod-1'', maxHistory = 25\<rparr>, \<lparr>identity = ''pod-2'', maxHistory = 25\<rparr>] empty_db)))) \<le> 25
   \<and> Owner_file (hd (fst (fst (GetHistory_file (sys_ok 3) (New_file ''f'' ''pod-2'' [])
      (snd (Claim_file (sys_ok 2) (New_file ''f'' ''pod-2'' [])
         (no_files(''f'' := Json \<lparr>Current = \<lparr>Owner_file = ''pod-1'', Timestamp = 1\<rparr>,
            History = [\<lparr>Owner_file = ''pod-1'', Timestamp = 1\<rparr>], Version = 1\<rparr>)))))))) = ''pod-2''"
proof -
  let ?m1 = "\<lparr>identity = ''pod-1'', maxHistory = 25\<rparr>"
  let ?m2 = "\<lparr>identity = ''pod-2'', maxHistory = 25\<rparr>"
  let ?db = "\<lparr>rows = [\<lparr>ID = 1, Owner = ''pod-1''\<rparr>], seq = 1\<rparr>"
  let ?fm = "New_file ''f'' ''pod-2'' []"
  let ?fs = "no_files(''f'' := Json \<lparr>Current = \<lparr>Owner_file = ''pod-1'', Timestamp = 1\<rparr>,
            History = [\<lparr>Owner_file = ''pod-1'', Timestamp = 1\<rparr>], Version = 1\<rparr>)"
  note t = bounded_history[of no_faults "''db''" "''pod-1''" None ?m1 empty_db ?m2 ?db no_faults no_faults ?m2
      "[?m1, ?m2]" "''f''" "sys_ok 2" ?fm ?fs "sys_ok 3"]
  have a: "maxHistory ?m2 = 25 \<and> wf_db ?db \<and> fst (Claim no_faults ?m2 ?db) = None \<and> no_faults QFind = None"
    by (simp add: wf_db_def Claim_def Transaction_def Claim_tx_def db_Create_def db_Count_def
        no_faults_def next_id_def)
  have b: "wf_db ?db \<and> [?m1, ?m2] \<noteq> [] \<and> (\<forall>x\<in>set [?m1, ?m2]. maxHistory x = 25) \<and> no_faults QFind = None"
    by (simp add: wf_db_def no_faults_def)
  have c: "fst (Claim_file (sys_ok 2) ?fm ?fs) = None \<and> 1 \<le> maxHistory_file ?fm \<and>
       length (History (load_data (sys_ok 2) (?fs (path ?fm)))) \<le> nat (maxHistory_file ?fm) \<and>
       try_lock (sys_ok 3) = (True, None) \<and> open_fault (sys_ok 3) = None"
    by (simp add: Claim_file_ok New_file_def load_data_cases sys_ok_def)
  from t a have 1: "Owner (hd (fst (fst (GetHistory no_faults ?m2 (snd (Claim no_faults ?m2 ?db)))))) = identity ?m2"
    by blast
  from t c have 3: "Owner_file (hd (fst (fst (GetHistory_file (sys_ok 3) ?fm (snd (Claim_file (sys_ok 2) ?fm ?fs))))))
      = identity_file ?fm"
    by blast
  have b': "wf_db empty_db \<and> [?m1, ?m2] \<noteq> [] \<and> (\<forall>x\<in>set [?m1, ?m2]. maxHistory x = 25) \<and> no_faults QFind = None"
    by (simp add: wf_db_def no_faults_def empty_db_def)
  from bounded_history[of no_faults "''db''" "''pod-1''" None ?m1 empty_db ?m2 empty_db no_faults no_faults ?m2
      "[?m1, ?m2]" "''f''" "sys_ok 2" ?fm ?fs "sys_ok 3"] b'
  have 2: "length (fst (fst (GetHistory no_faults ?m2
      (fold (\<lambda>x d. snd (Claim no_faults x d)) [?m1, ?m2] empty_db)))) \<le> 25"
    by blast
  have n: "New no_faults ''db'' ''pod-1'' None = Inr (?m1, empty_db)"
    by (simp add: New_def no_faults_def)
  from t n have 0: "maxHistory ?m1 = 25" by blast
  from 0 1 2 3 n show ?thesis by (simp add: New_file_def)
qed

text \<open>
  C4 (first claimant). On a fresh store \<open>CheckSuccession\<close> is to return
  \<open>(shouldProceed, isReplaced) = (True, False)\<close> for every identity, a store that does not
  exist yet being an empty log and not an error. SQLite tracker: it does; \<open>New\<close> on an
  absent store succeeds with the empty database, and on a table without rows every marker
  may proceed. File tracker: on a stored history without entries every marker may
  proceed; on an absent file it does not. Its reads have a branch for the missing file
  (\<^verbatim>\<open>No history file, we're the first\<close>), but taking the read lock has created the file by
  the time \<^verbatim>\<open>os.Open\<close> runs: \<open>CheckSuccession\<close> returns \<open>(False, False)\<close> and the error
  \<^verbatim>\<open>failed to parse history: EOF\<close>, \<open>CurrentOwner\<close> and \<open>GetHistory\<close> return the same
  error, and each leaves the empty file behind.
\<close>

theorem first_claimant:
  "(io QOpen = None \<and> io QMigrate = None \<longrightarrow>
      New io p ident None = Inr (\<lparr>identity = ident, maxHistory = 25\<rparr>, empty_db))
   \<and> (rows db = [] \<and> io' QFirst = None \<longrightarrow>
      CheckSuccession io' m db = ((True, False, None), db))
   \<and> (try_lock sy = (True, None) \<and> open_fault sy = None \<and> fs (path fm) = NotExist \<longrightarrow>
      CheckSuccession_file sy fm fs
        = ((False, False, Some (Wrapped ''failed to parse history'' EOF)), fs(path fm := EmptyFile)) \<and>
      CurrentOwner_file sy fm fs
        = (([], Some (Wrapped ''failed to parse history'' EOF)), fs(path fm := EmptyFile)) \<and>
      GetHistory_file sy fm fs
        = (([], Some (Wrapped ''failed to parse history'' EOF)), fs(path fm := EmptyFile)))
   \<and> (try_lock sy = (True, None) \<and> open_fault sy = None \<and> fs (path fm) = Json d \<and> History d = [] \<longrightarrow>
      CheckSuccession_file sy fm fs = ((True, False, None), fs))"
proof (intro conjI impI)
  assume "io QOpen = None \<and> io QMigrate = None"
  then show "New io p ident None = Inr (\<lparr>identity = ident, maxHistory = 25\<rparr>, empty_db)"
    by (simp add: New_def)
next
  assume "rows db = [] \<and> io' QFirst = None"
  then show "CheckSuccession io' m db = ((True, False, None), db)"
    by (simp add: CheckSuccession_def CurrentOwner_ok order_id_desc_def)
next
  assume h: "try_lock sy = (True, None) \<and> open_fault sy = None \<and> fs (path fm) = NotExist"
  then show "CheckSuccession_file sy fm fs
        = ((False, False, Some (Wrapped ''failed to parse history'' EOF)), fs(path fm := EmptyFile))"
    by (simp add: read_absent)
  from h show "CurrentOwner_file sy fm fs
        = (([], Some (Wrapped ''failed to parse history'' EOF)), fs(path fm := EmptyFile))"
    by (simp add: read_absent)
  from h show "GetHistory_file sy fm fs
        = (([], Some (Wrapped ''failed to parse history'' EOF)), fs(path fm := EmptyFile))"
    by (simp add: read_absent)
next
  assume "try_lock sy = (True, None) \<and> open_fault sy = None \<and> fs (path fm) = Json d \<and> History d = []"
  then show "CheckSuccession_file sy fm fs = ((True, False, None), fs)"
    using CheckSuccession_file_json[of sy fs fm d] by simp
qed

text \<open>
  The first run of each tracker (\<^verbatim>\<open>TestNoExistingDB\<close> for the SQLite tracker), and the file
  tracker on a stored log without entries.
\<close>

theorem first_claimant_witness:
  "New no_faults ''db'' ''pod-1'' None = Inr (\<lparr>identity = ''pod-1'', maxHistory = 25\<rparr>, empty_db)
   \<and> CheckSuccession no_faults \<lparr>identity = ''pod-1'', maxHistory = 25\<rparr> empty_db
       = ((True, False, None), empty_db)
   \<and> CheckSuccession_file (sys_ok 0) (New_file ''f'' ''pod-1'' []) no_files
       = ((False, False, Some (Wrapped ''failed to parse history'' EOF)), no_files(''f'' := EmptyFile))
   \<and> CheckSuccession_file (sys_ok 0) (New_file ''f'' ''pod-1'' []) (no_files(''f'' := Json fresh_data))
       = ((True, False, None), no_files(''f'' := Json fresh_data))"
proof -
  let ?fm = "New_file ''f'' ''pod-1'' []"
  have p: "path ?fm = ''f''" by (simp add: New_file_def)
  have a: "no_faults QOpen = None \<and> no_faults QMigrate = None" by (simp add: no_faults_def)
  have b: "rows empty_db = [] \<and> no_faults QFirst = None" by (simp add: no_faults_def empty_db_def)
  have c: "try_lock (sys_ok 0) = (True, None) \<and> open_fault (sys_ok 0) = None \<and>
           no_files (path ?fm) = NotExist"
    by (simp add: sys_ok_def no_files_def)
  have d: "try_lock (sys_ok 0) = (True, None) \<and> open_fault (sys_ok 0) = None \<and>
           (no_files(''f'' := Json fresh_data)) (path ?fm) = Json fresh_data \<and>
           History fresh_data = []"
    by (simp add: sys_ok_def p fresh_data_def)
  note t1 = first_claimant[of no_faults "''db''" "''pod-1''" empty_db no_faults
        "\<lparr>identity = ''pod-1'', maxHistory = 25\<rparr>" "sys_ok 0" no_files ?fm fresh_data]
  note t2 = first_claimant[of no_faults "''db''" "''pod-1''" empty_db no_faults
        "\<lparr>identity = ''pod-1'', maxHistory = 25\<rparr>" "sys_ok 0" "no_files(''f'' := Json fresh_data)"
        ?fm fresh_data]
  from t1 a have r1: "New no_faults ''db'' ''pod-1'' None
      = Inr (\<lparr>identity = ''pod-1'', maxHistory = 25\<rparr>, empty_db)" by blast
  from t1 b have r2: "CheckSuccession no_faults \<lparr>identity = ''pod-1'', maxHistory = 25\<rparr> empty_db
      = ((True, False, None), empty_db)" by blast
  from t1 c have "CheckSuccession_file (sys_ok 0) ?fm no_files
      = ((False, False, Some (Wrapped ''failed to parse history'' EOF)), no_files(path ?fm := EmptyFile))"
    by blast
  then have r3: "CheckSuccession_file (sys_ok 0) ?fm no_files
      = ((False, False, Some (Wrapped ''failed to parse history'' EOF)), no_files(''f'' := EmptyFile))"
    by (simp only: p)
  from t2 d have r4: "CheckSuccession_file (sys_ok 0) ?fm (no_files(''f'' := Json fresh_data))
      = ((True, False, None), no_files(''f'' := Json fresh_data))" by blast
  from r1 r2 r3 r4 show ?thesis by (intro conjI)
qed

text \<open>
  C5 (corruption), as the claim states it: with an unparseable file every read behaves as
  on an empty log, and no error reaches the caller. It does not: on a stored log without
  entries \<open>CheckSuccession\<close> lets the marker proceed, the current owner is the empty string
  and the history is empty, all without an error; on the unparseable file
  \<open>CheckSuccession\<close> returns \<open>(False, False)\<close> and the parse error, and so do
  \<open>CurrentOwner\<close> and \<open>GetHistory\<close>.
\<close>

theorem corruption_counterexample:
  "CheckSuccession_file (sys_ok 0) (New_file ''f'' ''pod-1'' []) (no_files(''f'' := Json fresh_data))
     = ((True, False, None), no_files(''f'' := Json fresh_data))
   \<and> CurrentOwner_file (sys_ok 0) (New_file ''f'' ''pod-1'' []) (no_files(''f'' := Json fresh_data))
     = (([], None), no_files(''f'' := Json fresh_data))
   \<and> GetHistory_file (sys_ok 0) (New_file ''f'' ''pod-1'' []) (no_files(''f'' := Json fresh_data))
     = (([], None), no_files(''f'' := Json fresh_data))
   \<and> CheckSuccession_file (sys_ok 0) (New_file ''f'' ''pod-1'' []) (no_files(''f'' := Unparseable))
     = ((False, False, Some (Wrapped ''failed to parse history'' DecodeError)), no_files(''f'' := Unparseable))
   \<and> CurrentOwner_file (sys_ok 0) (New_file ''f'' ''pod-1'' []) (no_files(''f'' := Unparseable))
     = (([], Some (Wrapped ''failed to parse history'' DecodeError)), no_files(''f'' := Unparseable))
   \<and> GetHistory_file (sys_ok 0) (New_file ''f'' ''pod-1'' []) (no_files(''f'' := Unparseable))
     = (([], Some (Wrapped ''failed to parse history'' DecodeError)), no_files(''f'' := Unparseable))"
  by (simp add: CheckSuccession_file_def CurrentOwner_file_def GetHistory_file_def readWithLock_def
      sys_ok_def New_file_def no_files_def IsNotExist_def lock_file_def fresh_data_def
      FindIndexOf_def Let_def)

text \<open>
  C5 as amended. \<open>Claim\<close> treats an unparseable file as an empty log: it fails or
  succeeds as it does when the file is absent, and when it succeeds it writes the same
  file, the log of a first claim. The reads do not recover: once they hold the lock and
  have opened an unparseable file, \<open>CheckSuccession\<close>, \<open>CurrentOwner\<close> and \<open>GetHistory\<close>
  return the error \<^verbatim>\<open>failed to parse history\<close> to their caller.
\<close>

theorem corruption_recovery:
  "(fs (path fm) = Unparseable \<longrightarrow>
      fst (Claim_file sy fm fs) = fst (Claim_file sy fm (fs(path fm := NotExist))) \<and>
      (fst (Claim_file sy fm fs) = None \<longrightarrow>
         snd (Claim_file sy fm fs) = snd (Claim_file sy fm (fs(path fm := NotExist))) \<and>
         snd (Claim_file sy fm fs) (path fm) = Json (claim_update fm (now sy) fresh_data)))
   \<and> (try_lock sy' = (True, None) \<and> open_fault sy' = None \<and> fs (path fm) = Unparseable \<longrightarrow>
      CheckSuccession_file sy' fm fs
        = ((False, False, Some (Wrapped ''failed to parse history'' DecodeError)), fs) \<and>
      CurrentOwner_file sy' fm fs = (([], Some (Wrapped ''failed to parse history'' DecodeError)), fs) \<and>
      GetHistory_file sy' fm fs = (([], Some (Wrapped ''failed to parse history'' DecodeError)), fs))"
proof (intro conjI impI)
  assume u: "fs (path fm) = Unparseable"
  show e: "fst (Claim_file sy fm fs) = fst (Claim_file sy fm (fs(path fm := NotExist)))"
    by (simp add: Claim_file_fst)
  assume ok: "fst (Claim_file sy fm fs) = None"
  then have ok': "fst (Claim_file sy fm (fs(path fm := NotExist))) = None" using e by simp
  show "snd (Claim_file sy fm fs) = snd (Claim_file sy fm (fs(path fm := NotExist)))"
    using Claim_file_success[OF ok] Claim_file_success[OF ok'] u by (simp add: load_data_cases)
  show "snd (Claim_file sy fm fs) (path fm) = Json (claim_update fm (now sy) fresh_data)"
    using Claim_file_success[OF ok] u by (simp add: load_data_cases)
next
  assume h: "try_lock sy' = (True, None) \<and> open_fault sy' = None \<and> fs (path fm) = Unparseable"
  then show "CheckSuccession_file sy' fm fs
        = ((False, False, Some (Wrapped ''failed to parse history'' DecodeError)), fs)"
    by (simp add: CheckSuccession_file_unparseable)
  from h show "CurrentOwner_file sy' fm fs = (([], Some (Wrapped ''failed to parse history'' DecodeError)), fs)"
    by (simp add: read_unparseable)
  from h show "GetHistory_file sy' fm fs = (([], Some (Wrapped ''failed to parse history'' DecodeError)), fs)"
    by (simp add: read_unparseable)
qed

theorem corruption_recovery_witness:
  "fst (Claim_file (sys_ok 1) (New_file ''f'' ''pod-1'' []) (no_files(''f'' := Unparseable))) = None
   \<and> snd (Claim_file (sys_ok 1) (New_file ''f'' ''pod-1'' []) (no_files(''f'' := Unparseable)))
       = snd (Claim_file (sys_ok 1) (New_file ''f'' ''pod-1'' []) no_files)
   \<and> snd (Claim_file (sys_ok 1) (New_file ''f'' ''pod-1'' []) (no_files(''f'' := Unparseable))) ''f''
       = Json \<lparr>Current = \<lparr>Owner_file = ''pod-1'', Timestamp = 1\<rparr>,
               History = [\<lparr>Owner_file = ''pod-1'', Timestamp = 1\<rparr>], Version = 1\<rparr>
   \<and> GetHistory_file (sys_ok 2) (New_file ''f'' ''pod-1'' []) (no_files(''f'' := Unparseable))
       = (([], Some (Wrapped ''failed to parse history'' DecodeError)), no_files(''f'' := Unparseable))"
proof -
  let ?m = "New_file ''f'' ''pod-1'' []"
  let ?fs = "no_files(''f'' := Unparseable)"
  have p: "path ?m = ''f''" by (simp add: New_file_def)
  have u: "?fs (path ?m) = Unparseable" by (simp add: p)
  have ok: "fst (Claim_file (sys_ok 1) ?m ?fs) = None" by (simp add: Claim_file_ok)
  have r: "try_lock (sys_ok 2) = (True, None) \<and> open_fault (sys_ok 2) = None \<and> ?fs (path ?m) = Unparseable"
    by (simp add: sys_ok_def p)
  have n: "?fs(path ?m := NotExist) = no_files" by (simp add: p no_files_def fun_eq_iff)
  have d: "claim_update ?m (now (sys_ok 1)) fresh_data
            = \<lparr>Current = \<lparr>Owner_file = ''pod-1'', Timestamp = 1\<rparr>,
               History = [\<lparr>Owner_file = ''pod-1'', Timestamp = 1\<rparr>], Version = 1\<rparr>"
    by (simp add: claim_update_def fresh_data_def New_file_def sys_ok_def Filter_def Slice_def Let_def
        int_inc_def)
  note t = corruption_recovery[of ?fs ?m "sys_ok 1" "sys_ok 2"]
  from t u ok have a: "snd (Claim_file (sys_ok 1) ?m ?fs) = snd (Claim_file (sys_ok 1) ?m (?fs(path ?m := NotExist)))"
    and b: "snd (Claim_file (sys_ok 1) ?m ?fs) (path ?m) = Json (claim_update ?m (now (sys_ok 1)) fresh_data)"
    by blast+
  from t r have c: "GetHistory_file (sys_ok 2) ?m ?fs
       = (([], Some (Wrapped ''failed to parse history'' DecodeError)), ?fs)"
    by blast
  from a have a': "snd (Claim_file (sys_ok 1) ?m ?fs) = snd (Claim_file (sys_ok 1) ?m no_files)"
    by (simp only: n)
  from b have b': "snd (Claim_file (sys_ok 1) ?m ?fs) ''f''
       = Json \<lparr>Current = \<lparr>Owner_file = ''pod-1'', Timestamp = 1\<rparr>,
               History = [\<lparr>Owner_file = ''pod-1'', Timestamp = 1\<rparr>], Version = 1\<rparr>"
    by (simp only: d p)
  from ok a' b' c show ?thesis by (intro conjI)
qed

subsection \<open>Verifiers\<close>

text \<open>
  C6 (the file removal verifier and the race with the watch). The file exists when
  \<^verbatim>\<open>filepath.Glob\<close> runs and is removed before \<^verbatim>\<open>watcher.Add\<close> returns: no event is
  queued for it, and when the deadline passes the verifier returns a timeout error. The
  same removal made after \<^verbatim>\<open>watcher.Add\<close> is reported, and the verifier returns nil.
\<close>

theorem file_removal_misses_removal_before_watch:
  "Verify_file_removal
      \<lparr>Match = (=), Dir = (\<lambda>p. ''/run/openvswitch''), glob_fault = None, watcher_fault = None, add_fault = None\<rparr>
      \<lparr>pattern = ''/run/openvswitch/ovs-vswitchd.pid''\<rparr> [''/run/openvswitch/ovs-vswitchd.pid''] None
      [Step, Removes ''/run/openvswitch/ovs-vswitchd.pid'', Step, SelectEvent, CtxEnds DeadlineExceeded, SelectEvent, SelectDone]
     = Some (Some (Wrapped ''timeout waiting for file_removal(/run/openvswitch/ovs-vswitchd.pid)'' DeadlineExceeded))
   \<and> Verify_file_removal
      \<lparr>Match = (=), Dir = (\<lambda>p. ''/run/openvswitch''), glob_fault = None, watcher_fault = None, add_fault = None\<rparr>
      \<lparr>pattern = ''/run/openvswitch/ovs-vswitchd.pid''\<rparr> [''/run/openvswitch/ovs-vswitchd.pid''] None
      [Step, Step, Removes ''/run/openvswitch/ovs-vswitchd.pid'', SelectEvent]
     = Some None"
  by (simp add: Verify_file_removal_def fr_start_def fr_result_def String_file_removal_def)

text \<open>
  C7 (asymmetric deadline). \<open>waits\<close> are receptions after which the hugepages loop goes
  on. When its \<^verbatim>\<open>select\<close> then receives the end of a context whose deadline has passed, the
  hugepages verifier returns nil; when it receives the end of a cancelled context (and the
  verifier has a proc file system), it returns \<open>Canceled\<close>. When the \<^verbatim>\<open>select\<close> of the file
  removal verifier takes \<^verbatim>\<open>ctx.Done()\<close>, it returns an error that wraps the reason, whichever
  it is.
\<close>

theorem asymmetric_deadline:
  "((\<forall>s\<in>set waits. hugepages_loop [s] = None) \<longrightarrow>
      Verify_hugepages default_fs hv (waits @ HpDone DeadlineExceeded # rest) = Some None)
   \<and> ((\<forall>s\<in>set waits. hugepages_loop [s] = None) \<and> (hp_fs hv \<noteq> None \<or> default_fs = None) \<longrightarrow>
      Verify_hugepages default_fs hv (waits @ HpDone Canceled # rest) = Some (Some Canceled))
   \<and> (pc s = AtSelect \<and> ctx_err s = Some e \<longrightarrow>
      fr_result (fr_step env fv s SelectDone) =
        Some (Some (Wrapped (''timeout waiting for '' @ String_file_removal fv) e)))"
proof (intro conjI impI)
  assume "\<forall>s\<in>set waits. hugepages_loop [s] = None"
  then show "Verify_hugepages default_fs hv (waits @ HpDone DeadlineExceeded # rest) = Some None"
    by (simp add: Verify_hugepages_def hugepages_loop_skip)
next
  assume "(\<forall>s\<in>set waits. hugepages_loop [s] = None) \<and> (hp_fs hv \<noteq> None \<or> default_fs = None)"
  then show "Verify_hugepages default_fs hv (waits @ HpDone Canceled # rest) = Some (Some Canceled)"
    by (auto simp: Verify_hugepages_def hugepages_loop_skip)
next
  assume "pc s = AtSelect \<and> ctx_err s = Some e"
  then show "fr_result (fr_step env fv s SelectDone) =
        Some (Some (Wrapped (''timeout waiting for '' @ String_file_removal fv) e))"
    by (simp add: fr_result_def)
qed

text \<open>
  The tests \<^verbatim>\<open>TestHugePagesVerifier_Timeout\<close> and \<^verbatim>\<open>_ContextCancellation\<close> (512 pages, none
  free), and \<^verbatim>\<open>TestFileRemovalVerifier_Timeout\<close> and \<^verbatim>\<open>_ContextCancellation\<close>.
\<close>

theorem asymmetric_deadline_witness:
  "Verify_hugepages None \<lparr>hp_fs = Some ''/proc''\<rparr>
     [TickerC (Inr \<lparr>HugePagesTotal = Some 512, HugePagesFree = Some 0\<rparr>), HpDone DeadlineExceeded] = Some None
   \<and> Verify_hugepages None \<lparr>hp_fs = Some ''/proc''\<rparr>
     [TickerC (Inr \<lparr>HugePagesTotal = Some 512, HugePagesFree = Some 0\<rparr>), HpDone Canceled] = Some (Some Canceled)
   \<and> Verify_file_removal \<lparr>Match = (=), Dir = (\<lambda>p. ''/tmp''), glob_fault = None, watcher_fault = None, add_fault = None\<rparr>
        \<lparr>pattern = ''/tmp/persistent.txt''\<rparr> [''/tmp/persistent.txt''] None
        [Step, Step, CtxEnds DeadlineExceeded, SelectDone]
       = Some (Some (Wrapped ''timeout waiting for file_removal(/tmp/persistent.txt)'' DeadlineExceeded))
   \<and> Verify_file_removal \<lparr>Match = (=), Dir = (\<lambda>p. ''/tmp''), glob_fault = None, watcher_fault = None, add_fault = None\<rparr>
        \<lparr>pattern = ''/tmp/persistent.txt''\<rparr> [''/tmp/persistent.txt''] None
        [Step, Step, CtxEnds Canceled, SelectDone]
       = Some (Some (Wrapped ''timeout waiting for file_removal(/tmp/persistent.txt)'' Canceled))"
proof -
  let ?w = "[TickerC (Inr \<lparr>HugePagesTotal = Some 512, HugePagesFree = Some 0\<rparr>)]"
  let ?env = "\<lparr>Match = (=), Dir = (\<lambda>p. ''/tmp''), glob_fault = None, watcher_fault = None, add_fault = None\<rparr>"
  let ?v = "\<lparr>pattern = ''/tmp/persistent.txt''\<rparr>"
  let ?s = "\<lambda>e. \<lparr>pc = AtSelect, files = [''/tmp/persistent.txt''], pending = [], ctx_err = Some e\<rparr>"
  have w: "\<forall>s\<in>set ?w. hugepages_loop [s] = None" by simp
  have f: "hp_fs \<lparr>hp_fs = Some ''/proc''\<rparr> \<noteq> None \<or> (None :: error option) = None" by simp
  have s: "pc (?s e) = AtSelect \<and> ctx_err (?s e) = Some e" for e by simp
  have r: "fold (\<lambda>mv s. fr_step ?env ?v s mv) [Step, Step, CtxEnds e] (fr_start [''/tmp/persistent.txt''] None) = ?s e" for e
    by (simp add: fr_start_def)
  show ?thesis
    using asymmetric_deadline[of ?w None "\<lparr>hp_fs = Some ''/proc''\<rparr>" "[]" "?s DeadlineExceeded" DeadlineExceeded ?env ?v]
      asymmetric_deadline[of ?w None "\<lparr>hp_fs = Some ''/proc''\<rparr>" "[]" "?s Canceled" Canceled ?env ?v]
      w f s[of DeadlineExceeded] s[of Canceled] r[of DeadlineExceeded] r[of Canceled]
    by (simp add: Verify_file_removal_def String_file_removal_def)
qed

text \<open>
  C8 (runner). With no verifiers \<open>Run\<close> returns nil. Whatever the order in which the
  verifiers return: when each of them succeeds, \<open>Run\<close> returns nil; otherwise it returns
  the error of the first one that fails in that order, wrapped with that verifier's
  description (and then with \<^verbatim>\<open>verification failed\<close>), and when some verifier fails such a
  first one exists.
\<close>

theorem runner_result:
  "(completion_order 0 order \<longrightarrow> Run order c [] = None)
   \<and> (completion_order (length vs) order \<and> (\<forall>v\<in>set vs. Verify v c = None) \<longrightarrow>
        Run order c vs = None)
   \<and> (completion_order (length vs) order \<and> order = pre @ i # post \<and>
       (\<forall>j\<in>set pre. Verify (vs ! j) c = None) \<and> Verify (vs ! i) c = Some e \<longrightarrow>
        Run order c vs = Some (Wrapped ''verification failed'' (Wrapped (String (vs ! i)) e)))
   \<and> (completion_order (length vs) order \<and> \<not> (\<forall>v\<in>set vs. Verify v c = None) \<longrightarrow>
        (\<exists>k err. k < length vs \<and> Verify (vs ! k) c = Some err \<and>
           Run order c vs = Some (Wrapped ''verification failed'' (Wrapped (String (vs ! k)) err))))"
proof (intro conjI impI)
  assume "completion_order 0 order"
  then have "order = []" by (simp add: completion_order_def)
  then show "Run order c [] = None" by (simp add: Run_def)
next
  assume h: "completion_order (length vs) order \<and> (\<forall>v\<in>set vs. Verify v c = None)"
  then have "\<forall>i\<in>set order. Verify (vs ! i) c = None"
    using completion_order_nth[of vs order] by blast
  then show "Run order c vs = None"
    by (simp add: Run_def group_wait_all_succeed)
next
  assume "completion_order (length vs) order \<and> order = pre @ i # post \<and>
       (\<forall>j\<in>set pre. Verify (vs ! j) c = None) \<and> Verify (vs ! i) c = Some e"
  then show "Run order c vs = Some (Wrapped ''verification failed'' (Wrapped (String (vs ! i)) e))"
    using group_wait_first_error[of pre vs c i e post] by (simp add: Run_def)
next
  assume "completion_order (length vs) order \<and> \<not> (\<forall>v\<in>set vs. Verify v c = None)"
  then show "\<exists>k err. k < length vs \<and> Verify (vs ! k) c = Some err \<and>
           Run order c vs = Some (Wrapped ''verification failed'' (Wrapped (String (vs ! k)) err))"
    using Run_some_failure[of vs order c] by blast
qed

text \<open>
  The verifiers of the test \<^verbatim>\<open>one verifier fails\<close>: the second of three fails, and
  returns before the third.
\<close>

theorem runner_result_witness:
  "Run [] None [] = None
   \<and> Run [0, 1] None [\<lparr>String = ''test1'', Verify = (\<lambda>c. None)\<rparr>,
                       \<lparr>String = ''test3'', Verify = (\<lambda>c. None)\<rparr>] = None
   \<and> Run [0, 1, 2] None [\<lparr>String = ''test1'', Verify = (\<lambda>c. None)\<rparr>,
                          \<lparr>String = ''test2'', Verify = (\<lambda>c. Some (Msg ''assert.AnError''))\<rparr>,
                          \<lparr>String = ''test3'', Verify = (\<lambda>c. c)\<rparr>]
       = Some (Wrapped ''verification failed'' (Wrapped ''test2'' (Msg ''assert.AnError'')))
   \<and> Run [2, 1, 0] None [\<lparr>String = ''test1'', Verify = (\<lambda>c. None)\<rparr>,
                          \<lparr>String = ''test2'', Verify = (\<lambda>c. Some (Msg ''assert.AnError''))\<rparr>,
                          \<lparr>String = ''test3'', Verify = (\<lambda>c. c)\<rparr>] \<noteq> None"
proof -
  let ?ok = "[\<lparr>String = ''test1'', Verify = (\<lambda>c. None)\<rparr>, \<lparr>String = ''test3'', Verify = (\<lambda>c. None)\<rparr>]"
  let ?vs = "[\<lparr>String = ''test1'', Verify = (\<lambda>c. None)\<rparr>,
              \<lparr>String = ''test2'', Verify = (\<lambda>c. Some (Msg ''assert.AnError''))\<rparr>,
              \<lparr>String = ''test3'', Verify = (\<lambda>c. c)\<rparr>]"
  have a: "completion_order 0 []" by (simp add: completion_order_def)
  have b: "completion_order (length ?ok) [0, 1] \<and> (\<forall>v\<in>set ?ok. Verify v None = None)"
    by (auto simp: completion_order_def)
  have c: "completion_order (length ?vs) [0, 1, 2] \<and> [0, 1, 2] = [0] @ 1 # [2] \<and>
           (\<forall>j\<in>set [0]. Verify (?vs ! j) None = None) \<and>
           Verify (?vs ! 1) None = Some (Msg ''assert.AnError'')"
    by (auto simp: completion_order_def)
  have d: "completion_order (length ?vs) [2, 1, 0] \<and> \<not> (\<forall>v\<in>set ?vs. Verify v None = None)"
    by (auto simp: completion_order_def)
  from runner_result[of "[2, 1, 0]" None ?vs "[0]" 1 "[2]" "Msg ''assert.AnError''"] d
  have e: "Run [2, 1, 0] None ?vs \<noteq> None" by auto
  show ?thesis
    using runner_result[of "[]" None ?ok "[0]" 1 "[2]" "Msg ''assert.AnError''"]
      runner_result[of "[0, 1]" None ?ok "[0]" 1 "[2]" "Msg ''assert.AnError''"]
      runner_result[of "[0, 1, 2]" None ?vs "[0]" 1 "[2]" "Msg ''assert.AnError''"]
      a b c e
    by simp
qed

subsection \<open>Invariants of the succession check\<close>

text \<open>
  C9 (verdict exclusivity). Whenever \<open>CheckSuccession\<close> returns without an error, its
  two booleans are complementary: \<open>shouldProceed\<close> holds exactly when \<open>isReplaced\<close> does
  not. Both trackers.
\<close>

theorem verdict_exclusive:
  "(fst (CheckSuccession io m db) = (shouldProceed, isReplaced, None) \<longrightarrow>
      shouldProceed = (\<not> isReplaced))
   \<and> (fst (CheckSuccession_file sy fm fs) = (shouldProceed', isReplaced', None) \<longrightarrow>
      shouldProceed' = (\<not> isReplaced'))"
  using CheckSuccession_exclusive[of io m db shouldProceed isReplaced]
    CheckSuccession_file_exclusive[of sy fm fs shouldProceed' isReplaced']
  by blast

theorem verdict_exclusive_witness:
  "fst (CheckSuccession no_faults \<lparr>identity = ''pod-1'', maxHistory = 25\<rparr>
         \<lparr>rows = [\<lparr>ID = 1, Owner = ''pod-1''\<rparr>, \<lparr>ID = 2, Owner = ''pod-2''\<rparr>], seq = 2\<rparr>)
     = (False, True, None)
   \<and> False = (\<not> True)
   \<and> fst (CheckSuccession_file (sys_ok 3) (New_file ''f'' ''pod-1'' [])
         (no_files(''f'' := Json \<lparr>Current = \<lparr>Owner_file = ''pod-2'', Timestamp = 2\<rparr>,
              History = [\<lparr>Owner_file = ''pod-2'', Timestamp = 2\<rparr>, \<lparr>Owner_file = ''pod-1'', Timestamp = 1\<rparr>],
              Version = 2\<rparr>)))
     = (False, True, None)"
proof -
  let ?fs = "no_files(''f'' := Json \<lparr>Current = \<lparr>Owner_file = ''pod-2'', Timestamp = 2\<rparr>,
              History = [\<lparr>Owner_file = ''pod-2'', Timestamp = 2\<rparr>, \<lparr>Owner_file = ''pod-1'', Timestamp = 1\<rparr>],
              Version = 2\<rparr>)"
  have a: "fst (CheckSuccession no_faults \<lparr>identity = ''pod-1'', maxHistory = 25\<rparr>
         \<lparr>rows = [\<lparr>ID = 1, Owner = ''pod-1''\<rparr>, \<lparr>ID = 2, Owner = ''pod-2''\<rparr>], seq = 2\<rparr>)
     = (False, True, None)"
    by (simp add: CheckSuccession_def CurrentOwner_def db_First_def db_CountOwner_def no_faults_def
        order_id_desc_def)
  have b: "fst (CheckSuccession_file (sys_ok 3) (New_file ''f'' ''pod-1'' []) ?fs) = (False, True, None)"
    by (simp add: CheckSuccession_file_def readWithLock_def sys_ok_def New_file_def FindIndexOf_def
        Let_def lock_file_def)
  show ?thesis
    using verdict_exclusive[of no_faults "\<lparr>identity = ''pod-1'', maxHistory = 25\<rparr>"
        "\<lparr>rows = [\<lparr>ID = 1, Owner = ''pod-1''\<rparr>, \<lparr>ID = 2, Owner = ''pod-2''\<rparr>], seq = 2\<rparr>" False True
        "sys_ok 3" "New_file ''f'' ''pod-1'' []" ?fs False True] a b
    by simp
qed



end
